theory Spec2Isabelle
  imports Complex_Main "HOL-Library.Multiset" "HOL-Library.AList"
begin

section \<open>TF-IDF document ranker (tfidf\_doc\_ranker.py)\<close>

text \<open>
  A shallow embedding of the class \<open>TfidfDocRanker\<close>. The class is a thin layer over
  numpy and scipy.sparse, so the calls it makes into these libraries are modelled by
  small executable functions that follow the libraries' behaviour on the values the
  class passes to them.
\<close>

subsection \<open>Numbers\<close>

text \<open>
  A float64 value is an exact real (rounding, overflow and signed zeros are not
  modelled) or the value nan. The value nan is kept because the code can produce it
  (\<open>np.log\<close> of a negative quotient) and then compares it with \<open>0\<close>. No infinity
  is needed: the only logarithm taken is of a quotient that is never zero
  (lemma \<open>idf_arg_nonzero\<close> below).
\<close>

datatype fl = Fin real | NaN

fun fl_add :: "fl \<Rightarrow> fl \<Rightarrow> fl" where
  "fl_add (Fin x) (Fin y) = Fin (x + y)"
| "fl_add _ _ = NaN"

fun fl_mul :: "fl \<Rightarrow> fl \<Rightarrow> fl" where
  "fl_mul (Fin x) (Fin y) = Fin (x * y)"
| "fl_mul _ _ = NaN"

fun fl_neg :: "fl \<Rightarrow> fl" where
  "fl_neg (Fin x) = Fin (- x)"
| "fl_neg NaN = NaN"

text \<open>The comparison \<open><\<close> of floats: false as soon as one side is nan.\<close>

fun fl_lt :: "fl \<Rightarrow> fl \<Rightarrow> bool" where
  "fl_lt (Fin x) (Fin y) = (x < y)"
| "fl_lt _ _ = False"

text \<open>
  The order in which numpy sorts floats: the order of the reals, with nan after every
  number. It is used for \<open>np.argsort\<close> and \<open>np.argpartition\<close> only.
\<close>

instantiation fl :: linorder
begin

fun less_eq_fl :: "fl \<Rightarrow> fl \<Rightarrow> bool" where
  "less_eq_fl (Fin x) (Fin y) = (x \<le> y)"
| "less_eq_fl NaN (Fin y) = False"
| "less_eq_fl a NaN = True"

definition less_fl :: "fl \<Rightarrow> fl \<Rightarrow> bool" where
  "less_fl a b = (a \<le> b \<and> \<not> b \<le> a)"

instance
proof
  fix x y z :: fl
  show "(x < y) = (x \<le> y \<and> \<not> y \<le> x)"
    by (simp add: less_fl_def)
  show "x \<le> x"
    by (cases x) simp_all
  show "x \<le> y \<Longrightarrow> y \<le> z \<Longrightarrow> x \<le> z"
    by (cases x; cases y; cases z) simp_all
  show "x \<le> y \<Longrightarrow> y \<le> x \<Longrightarrow> x = y"
    by (cases x; cases y) simp_all
  show "x \<le> y \<or> y \<le> x"
    by (cases x; cases y) auto
qed

end

subsection \<open>Errors and log records\<close>

text \<open>
  The exceptions the class and the library calls raise. \<open>RuntimeError\<close> carries its
  message and \<open>KeyError\<close> the missing key.
\<close>

datatype error = RuntimeError string | KeyError string | IndexError | ValueError

datatype log_record = Warning string

text \<open>Running a list of computations in order, up to the first one that raises.\<close>

fun sequence_e :: "(error + 'a) list \<Rightarrow> error + 'a list" where
  "sequence_e [] = Inr []"
| "sequence_e (x # xs) =
     (case x of
        Inl e \<Rightarrow> Inl e
      | Inr y \<Rightarrow> (case sequence_e xs of Inl e \<Rightarrow> Inl e | Inr ys \<Rightarrow> Inr (y # ys)))"

subsection \<open>The loaded index\<close>

text \<open>
  A sparse matrix with one row (the query vector, the row of scores) is its number of
  columns and its stored entries \<open>(indices[i], data[i])\<close> in storage order. A stored
  entry may hold the value zero. The term-document matrix is loaded from disk; its
  stored values are finite.
\<close>

record sprow =
  sp_cols :: nat
  sp_ents :: "(nat \<times> fl) list"

record doc_matrix =
  mat_cols :: nat
  mat_rows :: "(nat \<times> real) list list"

type_synonym meta_record = "(string \<times> string) list"

text \<open>
  One meta source \<open>doc_dict[3][m]\<close>: component \<open>0\<close> maps a query string to document
  positions, component \<open>1\<close> maps it to the boost values.
\<close>

type_synonym meta_table = "(string \<rightharpoonup> int list) \<times> (string \<rightharpoonup> real list)"

text \<open>
  \<open>doc_dict\<close> is a tuple of two, three or four components: the map from document id to
  index, the list of ids by index, the per-document metadata, the meta sources.
\<close>

datatype doc_dict =
    DocDict2 "(string \<times> nat) list" "string list"
  | DocDict3 "(string \<times> nat) list" "string list" "string \<rightharpoonup> meta_record"
  | DocDict4 "(string \<times> nat) list" "string list" "string \<rightharpoonup> meta_record"
      "string \<rightharpoonup> meta_table"

fun len_doc_dict :: "doc_dict \<Rightarrow> nat" where
  "len_doc_dict (DocDict2 _ _) = 2"
| "len_doc_dict (DocDict3 _ _ _) = 3"
| "len_doc_dict (DocDict4 _ _ _ _) = 4"

fun doc_dict_2 :: "doc_dict \<Rightarrow> (string \<rightharpoonup> meta_record) option" where
  "doc_dict_2 (DocDict2 _ _) = None"
| "doc_dict_2 (DocDict3 _ _ mm) = Some mm"
| "doc_dict_2 (DocDict4 _ _ mm _) = Some mm"

fun doc_dict_3 :: "doc_dict \<Rightarrow> (string \<rightharpoonup> meta_table) option" where
  "doc_dict_3 (DocDict4 _ _ _ ms) = Some ms"
| "doc_dict_3 _ = None"

text \<open>
  The fields of a \<open>TfidfDocRanker\<close>. The tokenizer with its n-gram extraction and
  filter, \<open>utils.normalize\<close> and \<open>utils.hash\<close> live in other modules and are
  fields here. \<open>num_docs\<close> is set by the constructor to \<open>len(doc_dict[0])\<close>.
\<close>

record ranker =
  doc_mat :: doc_matrix
  ngrams :: nat
  hash_size :: nat
  doc_freqs :: "int list"
  doc_dict :: doc_dict
  num_docs :: nat
  strict :: bool
  tokenizer_ngrams :: "nat \<Rightarrow> string \<Rightarrow> string list"
  utils_normalize :: "string \<Rightarrow> string"
  utils_hash :: "string \<Rightarrow> nat \<Rightarrow> nat"

subsection \<open>doc\_meta\<close>

definition doc_meta :: "ranker \<Rightarrow> string \<Rightarrow> meta_record" where
  "doc_meta r pmid_or_title =
     (if 3 \<le> len_doc_dict (doc_dict r) then
        (case doc_dict_2 (doc_dict r) of
           Some mm \<Rightarrow> (case mm pmid_or_title of Some rec \<Rightarrow> rec | None \<Rightarrow> [])
         | None \<Rightarrow> [])
      else [])"

subsection \<open>text2spvec\<close>

definition parse :: "ranker \<Rightarrow> string \<Rightarrow> string list" where
  "parse r query = tokenizer_ngrams r (ngrams r) query"

text \<open>\<open>np.log1p\<close> of a count.\<close>

definition log1p :: "nat \<Rightarrow> fl" where
  "log1p c = Fin (ln (1 + real c))"

text \<open>
  \<open>np.log((num_docs - Ns + 0.5) / (Ns + 0.5))\<close> for one integer document frequency:
  the logarithm of a positive quotient, nan for a negative one.
\<close>

definition idf_arg :: "nat \<Rightarrow> int \<Rightarrow> real" where
  "idf_arg N Nt = (real N - real_of_int Nt + 1 / 2) / (real_of_int Nt + 1 / 2)"

definition log_ratio :: "nat \<Rightarrow> int \<Rightarrow> fl" where
  "log_ratio N Nt = (if 0 < idf_arg N Nt then Fin (ln (idf_arg N Nt)) else NaN)"

text \<open>\<open>idfs[idfs < 0] = 0\<close> for one entry.\<close>

definition clamp_neg :: "fl \<Rightarrow> fl" where
  "clamp_neg v = (if fl_lt v (Fin 0) then Fin 0 else v)"

text \<open>
  The method with \<open>val_idx=False\<close>, as every caller in the class has it. The result
  is the list of records logged and the vector or the exception raised.
  \<open>np.unique\<close> gives the sorted distinct bucket ids and their counts;
  \<open>doc_freqs[wids_unique]\<close> raises IndexError for an id beyond the array.
\<close>

definition text2spvec :: "ranker \<Rightarrow> string \<Rightarrow> log_record list \<times> (error + sprow)" where
  "text2spvec r query =
     (let words = parse r (utils_normalize r query);
          wids = map (\<lambda>w. utils_hash r w (hash_size r)) words
      in if length wids = 0 then
           (if strict r then ([], Inl (RuntimeError (''No valid word in: '' @ query)))
            else ([Warning (''No valid word in: '' @ query)],
                  Inr \<lparr>sp_cols = hash_size r, sp_ents = []\<rparr>))
         else
           (let wids_unique = remdups (sort wids);
                wids_counts = map (count_list wids) wids_unique;
                tfs = map log1p wids_counts
            in if list_all (\<lambda>t. t < length (doc_freqs r)) wids_unique then
                 (let Ns = map ((!) (doc_freqs r)) wids_unique;
                      idfs = map (\<lambda>Nt. clamp_neg (log_ratio (num_docs r) Nt)) Ns;
                      data = map2 fl_mul tfs idfs
                  in ([], Inr \<lparr>sp_cols = hash_size r, sp_ents = zip wids_unique data\<rparr>))
               else ([], Inl IndexError)))"

subsection \<open>The sparse product and the indexing of a score row\<close>

text \<open>
  \<open>spvec * doc_mat\<close>: scipy raises ValueError unless the inner dimensions agree.
  Its product routine adds, for every stored entry \<open>(j, x)\<close> of the vector and
  every stored entry \<open>(k, b)\<close> of row \<open>j\<close> of the matrix, \<open>x * b\<close> to the sum of
  column \<open>k\<close>, chains the columns as it first meets them, and stores, from the last
  column met to the first, the sums that are not zero.
\<close>

definition contributions :: "sprow \<Rightarrow> doc_matrix \<Rightarrow> (nat \<times> fl) list" where
  "contributions v M =
     concat (map (\<lambda>(j, x). map (\<lambda>(k, b). (k, fl_mul x (Fin b))) (mat_rows M ! j)) (sp_ents v))"

definition col_sum :: "(nat \<times> fl) list \<Rightarrow> nat \<Rightarrow> fl" where
  "col_sum cs k = foldl fl_add (Fin 0) (map snd (filter (\<lambda>c. fst c = k) cs))"

definition csr_matmat :: "sprow \<Rightarrow> doc_matrix \<Rightarrow> error + sprow" where
  "csr_matmat v M =
     (if sp_cols v \<noteq> length (mat_rows M) then Inl ValueError
      else
        (let cs = contributions v M;
             touched = remdups (rev (map fst cs))
         in Inr \<lparr>sp_cols = mat_cols M,
                 sp_ents = filter (\<lambda>(k, s). s \<noteq> Fin 0) (map (\<lambda>k. (k, col_sum cs k)) touched)\<rparr>))"

text \<open>The value of a row at a column: the stored value, zero where nothing is stored.\<close>

definition value_at :: "(nat \<times> fl) list \<Rightarrow> nat \<Rightarrow> fl" where
  "value_at es d = (case map_of es d of None \<Rightarrow> Fin 0 | Some x \<Rightarrow> x)"

text \<open>
  An index into an axis of length \<open>n\<close>: a negative index counts from the end, an
  index out of range raises IndexError.
\<close>

definition norm_index :: "nat \<Rightarrow> int \<Rightarrow> error + nat" where
  "norm_index n i =
     (if 0 \<le> i \<and> i < int n then Inr (nat i)
      else if - int n \<le> i \<and> i < 0 then Inr (nat (i + int n))
      else Inl IndexError)"

definition norm_indices :: "nat \<Rightarrow> int list \<Rightarrow> error + nat list" where
  "norm_indices n idx = sequence_e (map (norm_index n) idx)"

text \<open>
  Broadcasting the array of boosts against \<open>m\<close> positions: equal lengths, or a single
  value repeated; anything else raises ValueError.
\<close>

definition broadcast_to :: "real list \<Rightarrow> nat \<Rightarrow> error + real list" where
  "broadcast_to bs m =
     (if length bs = m then Inr bs
      else if length bs = 1 then Inr (replicate m (hd bs))
      else Inl ValueError)"

text \<open>
  \<open>res[0, idx] += bs\<close> for positions in range and as many values: the old values
  are read first, then each sum is written to its position, in order, so that the last
  write to a position stays. A position with no stored entry gets one (at the end of
  the storage; where scipy puts it only changes the order among equal scores).
\<close>

definition iadd_cols :: "sprow \<Rightarrow> nat list \<Rightarrow> real list \<Rightarrow> sprow" where
  "iadd_cols res idx bs =
     (let olds = map (value_at (sp_ents res)) idx;
          news = map2 (\<lambda>x b. fl_add x (Fin b)) olds bs
      in res\<lparr>sp_ents := fold (\<lambda>(d, x). AList.update d x) (zip idx news) (sp_ents res)\<rparr>)"

text \<open>
  The loop \<open>for m in meta\<close> of \<open>closest_docs\<close> and \<open>doc_scores\<close>. A dictionary
  lookup of a missing key raises KeyError. In the augmented assignment the old values
  are read (IndexError) before the right-hand side is evaluated (KeyError, then the
  shapes are checked).
\<close>

fun add_meta :: "(string \<rightharpoonup> meta_table) \<Rightarrow> string \<Rightarrow> real \<Rightarrow> string list \<Rightarrow> sprow \<Rightarrow> error + sprow" where
  "add_meta tabs query meta_scale [] res = Inr res"
| "add_meta tabs query meta_scale (m # ms) res =
     (case tabs m of
        None \<Rightarrow> Inl (KeyError m)
      | Some (pos_of, val_of) \<Rightarrow>
          (case pos_of query of
             None \<Rightarrow> add_meta tabs query meta_scale ms res
           | Some pos \<Rightarrow>
               (case norm_indices (sp_cols res) pos of
                  Inl e \<Rightarrow> Inl e
                | Inr idx \<Rightarrow>
                    (case val_of query of
                       None \<Rightarrow> Inl (KeyError query)
                     | Some vals \<Rightarrow>
                         (case broadcast_to (map (\<lambda>b. b * meta_scale) vals) (length idx) of
                            Inl e \<Rightarrow> Inl e
                          | Inr bs \<Rightarrow> add_meta tabs query meta_scale ms (iadd_cols res idx bs))))))"

text \<open>Lines 70 to 77 and 104 to 111: the row of scores with the meta scores added.\<close>

definition score_row :: "ranker \<Rightarrow> sprow \<Rightarrow> string \<Rightarrow> string list \<Rightarrow> real \<Rightarrow> error + sprow" where
  "score_row r spvec query meta meta_scale =
     (case csr_matmat spvec (doc_mat r) of
        Inl e \<Rightarrow> Inl e
      | Inr res \<Rightarrow>
          (if len_doc_dict (doc_dict r) = 4 then
             (case doc_dict_3 (doc_dict r) of
                Some tabs \<Rightarrow> add_meta tabs query meta_scale meta res
              | None \<Rightarrow> Inr res)
           else Inr res))"

subsection \<open>closest\_docs\<close>

text \<open>
  \<open>np.argsort\<close> and \<open>np.argpartition\<close> are fields of a record: numpy's default
  sort is not stable, so which of two equal keys comes first is numpy's choice. What
  they guarantee is \<open>numpy_ok\<close>: \<open>argsort\<close> is a permutation of the positions that
  sorts the keys; \<open>argpartition\<close> with \<open>kth\<close> is a permutation that puts at
  position \<open>kth\<close> a key with no greater key before it and no smaller key after it.
\<close>

record numpy =
  argsort :: "fl list \<Rightarrow> nat list"
  argpartition :: "fl list \<Rightarrow> nat \<Rightarrow> nat list"

definition is_argsort :: "fl list \<Rightarrow> nat list \<Rightarrow> bool" where
  "is_argsort xs p \<longleftrightarrow> mset p = mset [0..<length xs] \<and> sorted (map ((!) xs) p)"

definition is_argpartition :: "fl list \<Rightarrow> nat \<Rightarrow> nat list \<Rightarrow> bool" where
  "is_argpartition xs kth p \<longleftrightarrow>
     mset p = mset [0..<length xs] \<and>
     (\<forall>i < length xs. (i < kth \<longrightarrow> xs ! (p ! i) \<le> xs ! (p ! kth)) \<and>
                       (kth < i \<longrightarrow> xs ! (p ! kth) \<le> xs ! (p ! i)))"

definition numpy_ok :: "numpy \<Rightarrow> bool" where
  "numpy_ok np \<longleftrightarrow>
     (\<forall>xs. is_argsort xs (argsort np xs)) \<and>
     (\<forall>xs kth. kth < length xs \<longrightarrow> is_argpartition xs kth (argpartition np xs kth))"

text \<open>
  Lines 79 to 88. \<open>k\<close> is a Python integer: \<open>np.argpartition\<close> counts a negative
  \<open>kth\<close> from the end and raises ValueError when it is out of bounds, and the slice
  \<open>[0:k]\<close> with a negative \<open>k\<close> in bounds keeps the first \<open>len + k\<close> positions.
\<close>

definition top_k :: "numpy \<Rightarrow> sprow \<Rightarrow> int \<Rightarrow> error + (nat list \<times> fl list)" where
  "top_k np res k =
     (let data = map snd (sp_ents res);
          indices = map fst (sp_ents res);
          neg = map fl_neg data
      in if int (length data) \<le> k then
           (let o_sort = argsort np neg
            in Inr (map ((!) indices) o_sort, map ((!) data) o_sort))
         else if k < - int (length data) then Inl ValueError
         else
           (let kth = nat (if k < 0 then k + int (length data) else k);
                p = take kth (argpartition np neg kth);
                o_sort = map ((!) p) (argsort np (map ((!) neg) p))
            in Inr (map ((!) indices) o_sort, map ((!) data) o_sort)))"

definition closest_docs ::
  "numpy \<Rightarrow> ranker \<Rightarrow> string \<Rightarrow> string list \<Rightarrow> real \<Rightarrow> int \<Rightarrow>
     log_record list \<times> (error + (nat list \<times> fl list))" where
  "closest_docs np r query meta meta_scale k =
     (case text2spvec r query of
        (lg, Inl e) \<Rightarrow> (lg, Inl e)
      | (lg, Inr spvec) \<Rightarrow>
          (lg, case score_row r spvec query meta meta_scale of
                 Inl e \<Rightarrow> Inl e
               | Inr res \<Rightarrow> top_k np res k))"

subsection \<open>doc\_scores\<close>

definition doc_scores ::
  "ranker \<Rightarrow> string \<times> int list \<Rightarrow> string list \<Rightarrow> real \<Rightarrow> log_record list \<times> (error + fl list)" where
  "doc_scores r query_doc meta meta_scale =
     (case query_doc of
        (query, doc_idx) \<Rightarrow>
          (case text2spvec r query of
             (lg, Inl e) \<Rightarrow> (lg, Inl e)
           | (lg, Inr spvec) \<Rightarrow>
               (lg, case score_row r spvec query meta meta_scale of
                      Inl e \<Rightarrow> Inl e
                    | Inr res \<Rightarrow>
                        (case norm_indices (sp_cols res) doc_idx of
                           Inl e \<Rightarrow> Inl e
                         | Inr idx \<Rightarrow> Inr (map (value_at (sp_ents res)) idx)))))"

subsection \<open>The batch operations\<close>

text \<open>
  \<open>ThreadPool(num_workers)\<close> raises ValueError for a number of workers below one;
  \<open>None\<close> stands for the number of processors. \<open>map\<close> returns the results in the
  order of the inputs, or raises the exception of an item that failed. Which failed
  item's exception it raises, and how the log records of the items interleave, depend
  on the scheduling: the model takes the first failed item and keeps no log.
\<close>

definition thread_pool_map :: "int option \<Rightarrow> ('a \<Rightarrow> error + 'b) \<Rightarrow> 'a list \<Rightarrow> error + 'b list" where
  "thread_pool_map num_workers f xs =
     (case num_workers of
        None \<Rightarrow> sequence_e (map f xs)
      | Some n \<Rightarrow> if n < 1 then Inl ValueError else sequence_e (map f xs))"

definition batch_doc_meta :: "ranker \<Rightarrow> string list \<Rightarrow> int option \<Rightarrow> error + meta_record list" where
  "batch_doc_meta r pmids num_workers =
     thread_pool_map num_workers (\<lambda>p. Inr (doc_meta r p)) pmids"

definition batch_closest_docs ::
  "numpy \<Rightarrow> ranker \<Rightarrow> string list \<Rightarrow> string list \<Rightarrow> real \<Rightarrow> int \<Rightarrow> int option \<Rightarrow>
     error + (nat list \<times> fl list) list" where
  "batch_closest_docs np r queries meta meta_scale k num_workers =
     thread_pool_map num_workers (\<lambda>q. snd (closest_docs np r q meta meta_scale k)) queries"

definition batch_doc_scores ::
  "ranker \<Rightarrow> string list \<Rightarrow> int list list \<Rightarrow> string list \<Rightarrow> real \<Rightarrow> int option \<Rightarrow>
     error + fl list list" where
  "batch_doc_scores r queries doc_idxs meta meta_scale num_workers =
     thread_pool_map num_workers (\<lambda>qd. snd (doc_scores r qd meta meta_scale))
       (zip queries doc_idxs)"

subsection \<open>The boost of a document as the specification words it\<close>

text \<open>
  The positions a meta source lists for a query (none when the source or the query is
  missing), the boost value the source gives a document for the query (the value of its
  last listing, zero when it is not listed), and the sum over the requested sources.
\<close>

definition listed_docs :: "(string \<rightharpoonup> meta_table) \<Rightarrow> string \<Rightarrow> nat \<Rightarrow> string \<Rightarrow> nat list" where
  "listed_docs tabs query n m =
     (case tabs m of
        None \<Rightarrow> []
      | Some (pos_of, val_of) \<Rightarrow>
          (case pos_of query of
             None \<Rightarrow> []
           | Some pos \<Rightarrow> (case norm_indices n pos of Inl e \<Rightarrow> [] | Inr idx \<Rightarrow> idx)))"

definition source_boost :: "(string \<rightharpoonup> meta_table) \<Rightarrow> string \<Rightarrow> nat \<Rightarrow> string \<Rightarrow> nat \<Rightarrow> real" where
  "source_boost tabs query n m d =
     (case tabs m of
        None \<Rightarrow> 0
      | Some (pos_of, val_of) \<Rightarrow>
          (case val_of query of
             None \<Rightarrow> 0
           | Some vals \<Rightarrow>
               (case broadcast_to vals (length (listed_docs tabs query n m)) of
                  Inl e \<Rightarrow> 0
                | Inr bs \<Rightarrow>
                    (case map_of (rev (zip (listed_docs tabs query n m) bs)) d of
                       None \<Rightarrow> 0
                     | Some b \<Rightarrow> b))))"

definition meta_boost :: "(string \<rightharpoonup> meta_table) \<Rightarrow> string \<Rightarrow> nat \<Rightarrow> string list \<Rightarrow> nat \<Rightarrow> real" where
  "meta_boost tabs query n ms d = (\<Sum>m\<leftarrow>ms. source_boost tabs query n m d)"

text \<open>
  The dot product of the query vector with column \<open>d\<close> of the matrix, the boost
  coefficient of a document in a loaded index (to be multiplied by \<open>meta_scale\<close>),
  and the documents some requested source lists for the query. Without the fourth
  component of \<open>doc_dict\<close> there is no boost.
\<close>

definition lexical_score :: "sprow \<Rightarrow> doc_matrix \<Rightarrow> nat \<Rightarrow> fl" where
  "lexical_score v M d = col_sum (contributions v M) d"

definition doc_boost :: "ranker \<Rightarrow> string \<Rightarrow> string list \<Rightarrow> nat \<Rightarrow> real" where
  "doc_boost r query meta d =
     (case doc_dict_3 (doc_dict r) of
        None \<Rightarrow> 0
      | Some tabs \<Rightarrow> meta_boost tabs query (mat_cols (doc_mat r)) meta d)"

definition boosted_docs :: "ranker \<Rightarrow> string \<Rightarrow> string list \<Rightarrow> nat list" where
  "boosted_docs r query meta =
     (case doc_dict_3 (doc_dict r) of
        None \<Rightarrow> []
      | Some tabs \<Rightarrow> concat (map (listed_docs tabs query (mat_cols (doc_mat r))) meta))"

text \<open>
  When the loop over the meta sources raises nothing: every requested source is in the
  table and, where the query is one of its keys, the positions are in range, the boost
  values are there and their number fits.
\<close>

definition source_ok :: "(string \<rightharpoonup> meta_table) \<Rightarrow> string \<Rightarrow> nat \<Rightarrow> string \<Rightarrow> bool" where
  "source_ok tabs query n m =
     (case tabs m of
        None \<Rightarrow> False
      | Some (pos_of, val_of) \<Rightarrow>
          (case pos_of query of
             None \<Rightarrow> True
           | Some pos \<Rightarrow>
               (case norm_indices n pos of
                  Inl e \<Rightarrow> False
                | Inr idx \<Rightarrow>
                    (case val_of query of
                       None \<Rightarrow> False
                     | Some vals \<Rightarrow>
                         (case broadcast_to vals (length idx) of Inl e \<Rightarrow> False | Inr bs \<Rightarrow> True)))))"

definition meta_ok :: "ranker \<Rightarrow> string \<Rightarrow> string list \<Rightarrow> bool" where
  "meta_ok r query meta =
     (case doc_dict_3 (doc_dict r) of
        None \<Rightarrow> True
      | Some tabs \<Rightarrow> list_all (source_ok tabs query (mat_cols (doc_mat r))) meta)"

text \<open>
  A list of scores in descending order, and the full descending sort of a list of
  scores, both as \<open>np.argsort\<close> of the negated scores orders them (nan last).
\<close>

definition is_descending :: "fl list \<Rightarrow> bool" where
  "is_descending xs \<longleftrightarrow> sorted (map fl_neg xs)"

definition sort_desc :: "fl list \<Rightarrow> fl list" where
  "sort_desc xs = map fl_neg (sort (map fl_neg xs))"

subsection \<open>The weighting formula as the specification words it\<close>

definition spec_tf :: "nat \<Rightarrow> real" where
  "spec_tf c = ln (1 + real c)"

definition spec_idf :: "nat \<Rightarrow> int \<Rightarrow> real" where
  "spec_idf N df = max 0 (ln ((real N - real_of_int df + 0.5) / (real_of_int df + 0.5)))"

subsection \<open>A numpy with stable sorting\<close>

text \<open>
  One instance of the record \<open>numpy\<close>: a stable insertion sort on the keys, which
  also serves as partition (a sorted array is partitioned at every position).
\<close>

definition stable_argsort :: "fl list \<Rightarrow> nat list" where
  "stable_argsort xs = map snd (sort_key fst (zip xs [0..<length xs]))"

definition np_stable :: numpy where
  "np_stable = \<lparr>argsort = stable_argsort, argpartition = (\<lambda>xs kth. stable_argsort xs)\<rparr>"

subsection \<open>A small index\<close>

text \<open>
  Four documents and four buckets. The tokens are the characters of the query other
  than the space; \<open>a\<close>, \<open>b\<close>, \<open>c\<close> hash to the buckets 0, 1, 2 and every other
  token to bucket 3; normalizing drops the character \<open>~\<close>. Bucket 0 occurs in document
  1, bucket 1 in every document, bucket 2 in document 2, bucket 3 in none. The meta source
  \<open>covidex\<close> lists the documents 0 and 2 for the query \<open>d\<close>, with the boosts 1
  and 3, and document 3 for the query \<open>e\<close>, with the boost -2.
\<close>

definition ex_ngrams :: "nat \<Rightarrow> string \<Rightarrow> string list" where
  "ex_ngrams n text = map (\<lambda>c. [c]) (filter (\<lambda>c. c \<noteq> CHR '' '') text)"

definition ex_normalize :: "string \<Rightarrow> string" where
  "ex_normalize text = filter (\<lambda>c. c \<noteq> CHR ''~'') text"

definition ex_hash :: "string \<Rightarrow> nat \<Rightarrow> nat" where
  "ex_hash w m =
     (if w = ''a'' then 0 else if w = ''b'' then 1 else if w = ''c'' then 2 else 3) mod m"

definition ex_tabs :: "string \<rightharpoonup> meta_table" where
  "ex_tabs =
     [''covidex'' \<mapsto> ([''d'' \<mapsto> [0, 2], ''e'' \<mapsto> [3]], [''d'' \<mapsto> [1, 3], ''e'' \<mapsto> [- 2]])]"

definition ex_ranker :: ranker where
  "ex_ranker =
     \<lparr>doc_mat = \<lparr>mat_cols = 4,
                 mat_rows = [[(1, 2)], [(0, 1), (1, 1), (2, 1), (3, 1)], [(2, 5)], []]\<rparr>,
      ngrams = 1, hash_size = 4, doc_freqs = [1, 4, 1, 0],
      doc_dict = DocDict4 [(''d0'', 0), (''d1'', 1), (''d2'', 2), (''d3'', 3)]
                   [''d0'', ''d1'', ''d2'', ''d3'']
                   [''d1'' \<mapsto> [(''title'', ''one'')]]
                   ex_tabs,
      num_docs = 4, strict = True,
      tokenizer_ngrams = ex_ngrams, utils_normalize = ex_normalize, utils_hash = ex_hash\<rparr>"

text \<open>
  The same index with one meta source that lists document 2 twice for the query \<open>d\<close>,
  with the boost values 1 and 3.
\<close>

definition ex_twice :: ranker where
  "ex_twice =
     ex_ranker\<lparr>doc_dict := DocDict4 [(''d0'', 0), (''d1'', 1), (''d2'', 2), (''d3'', 3)]
                   [''d0'', ''d1'', ''d2'', ''d3'']
                   [''d1'' \<mapsto> [(''title'', ''one'')]]
                   [''twice'' \<mapsto> ([''d'' \<mapsto> [2, 2]], [''d'' \<mapsto> [1, 3]])]\<rparr>"

section \<open>Properties\<close>

subsection \<open>The query vector\<close>

lemma log_ratio_arg_nonzero:
  "real_of_int Nt + 1 / 2 \<noteq> 0 \<and> real N - real_of_int Nt + 1 / 2 \<noteq> 0"
proof
  have "2 * Nt + 1 \<noteq> 0" by presburger
  then have "real_of_int (2 * Nt + 1) \<noteq> 0" by (simp only: of_int_eq_0_iff) simp
  then show "real_of_int Nt + 1 / 2 \<noteq> 0" by simp
  have "2 * (int N - Nt) + 1 \<noteq> 0" by presburger
  then have "real_of_int (2 * (int N - Nt) + 1) \<noteq> 0" by (simp only: of_int_eq_0_iff) simp
  then show "real N - real_of_int Nt + 1 / 2 \<noteq> 0" by simp
qed

lemma idf_arg_nonzero: "idf_arg N Nt \<noteq> 0"
  using log_ratio_arg_nonzero [of Nt N] by (simp add: idf_arg_def)

lemma idf_arg_pos: "0 \<le> Nt \<Longrightarrow> Nt \<le> int N \<Longrightarrow> 0 < idf_arg N Nt"
  by (simp add: idf_arg_def field_simps)

lemma idf_arg_neg: "int N < Nt \<Longrightarrow> idf_arg N Nt < 0"
  by (simp add: idf_arg_def field_simps divide_neg_pos)

lemma clamp_log_ratio_in_range:
  assumes "0 \<le> Nt" "Nt \<le> int N"
  shows "clamp_neg (log_ratio N Nt) = Fin (spec_idf N Nt)"
  using idf_arg_pos [OF assms]
  by (simp add: clamp_neg_def log_ratio_def spec_idf_def idf_arg_def max_def)

lemma clamp_log_ratio_beyond: "int N < Nt \<Longrightarrow> clamp_neg (log_ratio N Nt) = NaN"
  using idf_arg_neg [of N Nt] by (simp add: clamp_neg_def log_ratio_def)

lemma clamp_neg_never_negative: "\<not> fl_lt (clamp_neg v) (Fin 0)"
  by (cases v) (simp_all add: clamp_neg_def)

lemma zip_weights:
  "zip ts (map2 f (map g ts) (map h ts)) = map (\<lambda>t. (t, f (g t) (h t))) ts"
  by (induction ts) simp_all

lemma remdups_sort_eq: "remdups (sort xs) = sorted_list_of_set (set xs)"
proof (rule sorted_distinct_set_unique)
  show "sorted (remdups (sort xs))"
    by (simp add: sorted_remdups)
qed simp_all

lemma map_of_weights: "t \<in> set ts \<Longrightarrow> map_of (map (\<lambda>t. (t, f t)) ts) t = Some (f t)"
  by (induction ts) auto

lemma text2spvec_nonempty:
  assumes "wids = map (\<lambda>w. utils_hash r w (hash_size r)) (parse r (utils_normalize r query))"
    and "wids \<noteq> []"
    and "\<forall>t \<in> set wids. t < length (doc_freqs r)"
  shows "text2spvec r query =
           ([], Inr \<lparr>sp_cols = hash_size r,
                     sp_ents = map (\<lambda>t. (t, fl_mul (log1p (count_list wids t))
                                              (clamp_neg (log_ratio (num_docs r) (doc_freqs r ! t)))))
                                 (remdups (sort wids))\<rparr>)"
proof -
  have "list_all (\<lambda>t. t < length (doc_freqs r)) (remdups (sort wids))"
    using assms(3) by (simp add: list_all_iff)
  then show ?thesis
    using assms(2) unfolding text2spvec_def Let_def assms(1) [symmetric]
    by (simp add: zip_weights)
qed

text \<open>
  Claim C1, as the code has it. For a query whose n-grams hash to a non-empty list of
  bucket ids, each with a document frequency between 0 and \<open>num_docs\<close>,
  \<open>text2spvec\<close> logs nothing and returns a vector of dimension \<open>hash_size\<close> whose
  stored entries are, in ascending order, exactly the distinct bucket ids; the entry of
  bucket \<open>t\<close> holds \<open>tf * idf\<close> with \<open>tf = ln (1 + count)\<close> and \<open>idf\<close> the
  logarithm of \<open>(N - df + 0.5) / (df + 0.5)\<close> clamped to 0 when negative, so \<open>idf\<close>
  is at least 0 and a stored entry holds zero where it is clamped. Whatever the document
  frequency, the factor the code uses does not compare below zero.
\<close>

theorem text2spvec_weights:
  assumes "wids = map (\<lambda>w. utils_hash r w (hash_size r)) (parse r (utils_normalize r query))"
    and "wids \<noteq> []"
    and "\<forall>t \<in> set wids. t < length (doc_freqs r) \<and> 0 \<le> doc_freqs r ! t \<and>
           doc_freqs r ! t \<le> int (num_docs r)"
  shows "(\<exists>v. text2spvec r query = ([], Inr v) \<and> sp_cols v = hash_size r \<and>
           map fst (sp_ents v) = sorted_list_of_set (set wids) \<and>
           (\<forall>t \<in> set wids.
              map_of (sp_ents v) t =
                Some (Fin (spec_tf (count_list wids t) * spec_idf (num_docs r) (doc_freqs r ! t))) \<and>
              0 \<le> spec_idf (num_docs r) (doc_freqs r ! t))) \<and>
         (\<forall>N Nt. \<not> fl_lt (clamp_neg (log_ratio N Nt)) (Fin 0))"
proof -
  let ?w = "\<lambda>t. fl_mul (log1p (count_list wids t))
                  (clamp_neg (log_ratio (num_docs r) (doc_freqs r ! t)))"
  let ?v = "\<lparr>sp_cols = hash_size r, sp_ents = map (\<lambda>t. (t, ?w t)) (remdups (sort wids))\<rparr>"
  have run: "text2spvec r query = ([], Inr ?v)"
    using assms by (intro text2spvec_nonempty) auto
  have keys: "map fst (sp_ents ?v) = sorted_list_of_set (set wids)"
    by (simp add: comp_def remdups_sort_eq)
  have vals: "map_of (sp_ents ?v) t =
                Some (Fin (spec_tf (count_list wids t) * spec_idf (num_docs r) (doc_freqs r ! t)))"
    if "t \<in> set wids" for t
  proof -
    have "clamp_neg (log_ratio (num_docs r) (doc_freqs r ! t)) =
            Fin (spec_idf (num_docs r) (doc_freqs r ! t))"
      using assms(3) that by (intro clamp_log_ratio_in_range) auto
    then have "?w t = Fin (spec_tf (count_list wids t) * spec_idf (num_docs r) (doc_freqs r ! t))"
      by (simp add: log1p_def spec_tf_def)
    moreover have "map_of (sp_ents ?v) t = Some (?w t)"
      using that by (simp add: map_of_weights)
    ultimately show ?thesis by simp
  qed
  have "0 \<le> spec_idf N df" for N df
    by (simp add: spec_idf_def)
  with run keys vals have "\<exists>v. text2spvec r query = ([], Inr v) \<and> sp_cols v = hash_size r \<and>
           map fst (sp_ents v) = sorted_list_of_set (set wids) \<and>
           (\<forall>t \<in> set wids.
              map_of (sp_ents v) t =
                Some (Fin (spec_tf (count_list wids t) * spec_idf (num_docs r) (doc_freqs r ! t))) \<and>
              0 \<le> spec_idf (num_docs r) (doc_freqs r ! t))"
    by (intro exI [of _ ?v]) simp
  then show ?thesis
    by (simp add: clamp_neg_never_negative)
qed

theorem text2spvec_weights_witness:
  "[0, 1, 0] \<noteq> ([] :: nat list) \<and>
   (\<exists>v. text2spvec ex_ranker ''a ba'' = ([], Inr v) \<and> sp_cols v = 4 \<and>
      map fst (sp_ents v) = [0, 1] \<and>
      map_of (sp_ents v) 0 = Some (Fin (spec_tf 2 * spec_idf 4 1)) \<and>
      map_of (sp_ents v) 1 = Some (Fin (spec_tf 1 * spec_idf 4 4)))"
proof -
  have h1: "[0, 1, 0] = map (\<lambda>w. utils_hash ex_ranker w (hash_size ex_ranker))
              (parse ex_ranker (utils_normalize ex_ranker ''a ba''))"
    by (simp add: ex_ranker_def parse_def ex_ngrams_def ex_normalize_def ex_hash_def)
  have h2: "[0, 1, 0] \<noteq> ([] :: nat list)"
    by simp
  have h3: "\<forall>t \<in> set [0, 1, 0]. t < length (doc_freqs ex_ranker) \<and> 0 \<le> doc_freqs ex_ranker ! t \<and>
              doc_freqs ex_ranker ! t \<le> int (num_docs ex_ranker)"
    by (simp add: ex_ranker_def)
  have "set [0, 1, 0 :: nat] = {0, 1}"
    by auto
  then have s: "sorted_list_of_set (set [0, 1, 0 :: nat]) = [0, 1]"
    by simp
  have c: "count_list [0, 1, 0 :: nat] 0 = 2" "count_list [0, 1, 0 :: nat] 1 = 1"
    by simp_all
  have f: "hash_size ex_ranker = 4" "num_docs ex_ranker = 4" "doc_freqs ex_ranker ! 0 = 1"
    "doc_freqs ex_ranker ! 1 = 4"
    by (simp_all add: ex_ranker_def)
  from text2spvec_weights [OF h1 h2 h3] obtain v where
    v: "text2spvec ex_ranker ''a ba'' = ([], Inr v)" "sp_cols v = hash_size ex_ranker"
      "map fst (sp_ents v) = sorted_list_of_set (set [0, 1, 0])"
      "\<forall>t \<in> set [0, 1, 0].
          map_of (sp_ents v) t =
            Some (Fin (spec_tf (count_list [0, 1, 0] t) *
                       spec_idf (num_docs ex_ranker) (doc_freqs ex_ranker ! t)))"
    by blast
  have in0: "(0::nat) \<in> set [0, 1, 0]" and in1: "(1::nat) \<in> set [0, 1, 0]"
    by simp_all
  have "map_of (sp_ents v) 0 = Some (Fin (spec_tf 2 * spec_idf 4 1))"
    "map_of (sp_ents v) 1 = Some (Fin (spec_tf 1 * spec_idf 4 4))"
    using bspec [OF v(4) in0] bspec [OF v(4) in1] unfolding c f by blast+
  with v(1,2,3) h2 show ?thesis
    unfolding s f by (intro conjI exI [of _ v]) simp_all
qed

text \<open>
  Claim C1 as stated fails twice. In the small index bucket 1 occurs in all four
  documents: its factor is clamped and the entry stored for it holds zero. With a
  document frequency of 5 for bucket 3, above the four documents, the quotient is
  negative, its logarithm is nan, the clamp leaves it, and the entry is nan.
\<close>

theorem text2spvec_zero_and_nan_entries:
  "snd (text2spvec ex_ranker ''b'') = Inr \<lparr>sp_cols = 4, sp_ents = [(1, Fin 0)]\<rparr> \<and>
   snd (text2spvec (ex_ranker\<lparr>doc_freqs := [1, 4, 1, 5]\<rparr>) ''d'') =
     Inr \<lparr>sp_cols = 4, sp_ents = [(3, NaN)]\<rparr>"
  by (simp add: text2spvec_def ex_ranker_def parse_def ex_ngrams_def ex_normalize_def
      ex_hash_def log1p_def log_ratio_def idf_arg_def clamp_neg_def)

subsection \<open>The row of scores\<close>

lemma fl_add_zero [simp]: "fl_add x (Fin 0) = x"
  by (cases x) simp_all

lemma fl_add_Fin_Fin: "fl_add (fl_add x (Fin a)) (Fin b) = fl_add x (Fin (a + b))"
  by (cases x) simp_all

lemma fl_add_mono: "a \<le> b \<Longrightarrow> fl_add x (Fin a) \<le> fl_add x (Fin b)"
  by (cases x) simp_all

lemma value_at_Nil [simp]: "value_at [] d = Fin 0"
  by (simp add: value_at_def)

lemma value_at_stored:
  "distinct (map fst es) \<Longrightarrow> (d, x) \<in> set es \<Longrightarrow> value_at es d = x"
  by (simp add: value_at_def)

lemma value_at_not_stored: "d \<notin> fst ` set es \<Longrightarrow> value_at es d = Fin 0"
  using map_of_eq_None_iff [of es d] by (simp add: value_at_def)

lemma col_sum_untouched: "k \<notin> fst ` set cs \<Longrightarrow> col_sum cs k = Fin 0"
proof -
  assume "k \<notin> fst ` set cs"
  then have "filter (\<lambda>c. fst c = k) cs = []"
    by (auto simp: filter_empty_conv)
  then show ?thesis
    by (simp add: col_sum_def)
qed

lemma map_of_filter_tabulate:
  "distinct ks \<Longrightarrow>
   map_of (filter (\<lambda>(k, s). P s) (map (\<lambda>k. (k, f k)) ks)) d =
     (if d \<in> set ks \<and> P (f d) then Some (f d) else None)"
  by (induction ks) auto

lemma keys_filter_tabulate:
  "map fst (filter (\<lambda>(k, s). P s) (map (\<lambda>k. (k, f k)) ks)) = filter (\<lambda>k. P (f k)) ks"
  by (induction ks) auto

lemma csr_matmat_ok:
  assumes "sp_cols v = length (mat_rows M)"
  shows "\<exists>res. csr_matmat v M = Inr res \<and> sp_cols res = mat_cols M \<and>
           distinct (map fst (sp_ents res)) \<and>
           (\<forall>d. value_at (sp_ents res) d = col_sum (contributions v M) d) \<and>
           fst ` set (sp_ents res) = {d. col_sum (contributions v M) d \<noteq> Fin 0}"
proof -
  let ?cs = "contributions v M"
  let ?ks = "remdups (rev (map fst ?cs))"
  let ?es = "filter (\<lambda>(k, s). s \<noteq> Fin 0) (map (\<lambda>k. (k, col_sum ?cs k)) ?ks)"
  let ?res = "\<lparr>sp_cols = mat_cols M, sp_ents = ?es\<rparr>"
  have run: "csr_matmat v M = Inr ?res"
    using assms by (simp add: csr_matmat_def Let_def)
  have ks: "distinct ?ks" "set ?ks = fst ` set ?cs"
    by simp_all
  have m: "map_of ?es d = (if d \<in> set ?ks \<and> col_sum ?cs d \<noteq> Fin 0 then Some (col_sum ?cs d) else None)"
    for d
    using ks(1) by (rule map_of_filter_tabulate)
  have val: "value_at ?es d = col_sum ?cs d" for d
    using col_sum_untouched [of d ?cs] by (auto simp add: value_at_def m)
  have kf: "map fst ?es = filter (\<lambda>k. col_sum ?cs k \<noteq> Fin 0) ?ks"
    by (rule keys_filter_tabulate)
  have dist: "distinct (map fst ?es)"
    unfolding kf by simp
  have "fst ` set ?es = set (map fst ?es)"
    by simp
  also have "\<dots> = {d \<in> fst ` set ?cs. col_sum ?cs d \<noteq> Fin 0}"
    unfolding kf by auto
  also have "\<dots> = {d. col_sum ?cs d \<noteq> Fin 0}"
    using col_sum_untouched [of _ ?cs] by blast
  finally have keys: "fst ` set ?es = {d. col_sum ?cs d \<noteq> Fin 0}" .
  show ?thesis
    using run val dist keys by (intro exI [of _ ?res]) simp
qed


lemma map_of_fold_update:
  "map_of (fold (\<lambda>(d, x). AList.update d x) ps es) = map_of es ++ map_of (rev ps)"
proof (induction ps arbitrary: es)
  case Nil
  then show ?case by simp
next
  case (Cons p ps)
  obtain d x where p: "p = (d, x)" by (cases p)
  have "map_of (fold (\<lambda>(d, x). AList.update d x) (p # ps) es) =
          map_of (AList.update d x es) ++ map_of (rev ps)"
    using Cons.IH [of "AList.update d x es"] by (simp add: p)
  also have "\<dots> = map_of es ++ map_of (rev (p # ps))"
    by (simp add: p update_conv' fun_eq_iff map_add_def split: option.splits)
  finally show ?case .
qed

lemma keys_fold_update:
  "fst ` set (fold (\<lambda>(d, x). AList.update d x) ps es) = fst ` set es \<union> fst ` set ps"
proof -
  have "fst ` set (fold (\<lambda>(d, x). AList.update d x) ps es) =
          dom (map_of es ++ map_of (rev ps))"
    by (simp only: map_of_fold_update [symmetric] dom_map_of_conv_image_fst)
  also have "\<dots> = fst ` set es \<union> fst ` set ps"
    by (auto simp: dom_map_of_conv_image_fst)
  finally show ?thesis .
qed

lemma distinct_fold_update:
  "distinct (map fst es) \<Longrightarrow> distinct (map fst (fold (\<lambda>(d, x). AList.update d x) ps es))"
  by (induction ps arbitrary: es) (auto simp: distinct_update)

lemma zip_news:
  "zip idx (map2 (\<lambda>x b. fl_add x (Fin b)) (map g idx) bs) =
     map (\<lambda>(d, b). (d, fl_add (g d) (Fin b))) (zip idx bs)"
proof (induction idx arbitrary: bs)
  case Nil
  then show ?case by simp
next
  case (Cons d idx)
  then show ?case by (cases bs) simp_all
qed

lemma map_of_map_vals:
  "map_of (map (\<lambda>(k, b). (k, g k b)) zs) d = map_option (g d) (map_of zs d)"
  by (induction zs) auto

lemma value_at_iadd_cols:
  "value_at (sp_ents (iadd_cols res idx bs)) d =
     (case map_of (rev (zip idx bs)) d of
        None \<Rightarrow> value_at (sp_ents res) d
      | Some b \<Rightarrow> fl_add (value_at (sp_ents res) d) (Fin b))"
proof -
  let ?g = "value_at (sp_ents res)"
  have "map_of (sp_ents (iadd_cols res idx bs)) =
          map_of (sp_ents res) ++ map_of (rev (map (\<lambda>(d, b). (d, fl_add (?g d) (Fin b))) (zip idx bs)))"
    by (simp add: iadd_cols_def Let_def zip_news map_of_fold_update)
  also have "rev (map (\<lambda>(d, b). (d, fl_add (?g d) (Fin b))) (zip idx bs)) =
               map (\<lambda>(d, b). (d, fl_add (?g d) (Fin b))) (rev (zip idx bs))"
    by (simp add: rev_map)
  finally have "map_of (sp_ents (iadd_cols res idx bs)) d =
      (case map_of (rev (zip idx bs)) d of
         None \<Rightarrow> map_of (sp_ents res) d
       | Some b \<Rightarrow> Some (fl_add (?g d) (Fin b)))"
    by (simp add: map_of_map_vals map_add_def split: option.splits)
  then show ?thesis
    by (simp add: value_at_def split: option.splits)
qed

lemma iadd_cols_shape:
  "sp_cols (iadd_cols res idx bs) = sp_cols res"
  "length idx = length bs \<Longrightarrow>
     fst ` set (sp_ents (iadd_cols res idx bs)) = fst ` set (sp_ents res) \<union> set idx"
  "distinct (map fst (sp_ents res)) \<Longrightarrow> distinct (map fst (sp_ents (iadd_cols res idx bs)))"
proof -
  show "sp_cols (iadd_cols res idx bs) = sp_cols res"
    by (simp add: iadd_cols_def Let_def)
  show "distinct (map fst (sp_ents (iadd_cols res idx bs)))" if "distinct (map fst (sp_ents res))"
    using that by (simp add: iadd_cols_def Let_def distinct_fold_update)
  show "fst ` set (sp_ents (iadd_cols res idx bs)) = fst ` set (sp_ents res) \<union> set idx"
    if "length idx = length bs"
  proof -
    have "fst ` set (map (\<lambda>(d, b). (d, fl_add (value_at (sp_ents res) d) (Fin b))) (zip idx bs)) =
            fst ` set (zip idx bs)"
      by force
    also have "\<dots> = set idx"
      using that by (metis map_fst_zip set_map)
    finally show ?thesis
      by (simp add: iadd_cols_def Let_def zip_news keys_fold_update)
  qed
qed

lemma broadcast_to_length: "broadcast_to bs m = Inr cs \<Longrightarrow> length cs = m"
  by (auto simp: broadcast_to_def split: if_splits)

lemma broadcast_to_map:
  "broadcast_to (map f bs) m = (case broadcast_to bs m of Inl e \<Rightarrow> Inl e | Inr cs \<Rightarrow> Inr (map f cs))"
  by (cases bs) (auto simp: broadcast_to_def)


lemma map_of_rev_zip_map:
  "map_of (rev (zip idx (map f bs))) d = map_option f (map_of (rev (zip idx bs)) d)"
proof -
  have "rev (zip idx (map f bs)) = map (\<lambda>(k, b). (k, f b)) (rev (zip idx bs))"
    by (simp add: zip_map2 rev_map)
  then show ?thesis
    by (simp add: map_of_map_vals)
qed

lemma source_boost_no_key:
  "tabs m = Some (pos_of, val_of) \<Longrightarrow> pos_of query = None \<Longrightarrow> source_boost tabs query n m d = 0"
  by (auto simp: source_boost_def listed_docs_def broadcast_to_def split: option.splits)

lemma add_meta_step:
  assumes "add_meta tabs query s (m # ms) res = Inr res'"
  shows "\<exists>res1. add_meta tabs query s ms res1 = Inr res' \<and> sp_cols res1 = sp_cols res \<and>
           (\<forall>d. value_at (sp_ents res1) d =
                  fl_add (value_at (sp_ents res) d) (Fin (source_boost tabs query (sp_cols res) m d * s))) \<and>
           fst ` set (sp_ents res1) = fst ` set (sp_ents res) \<union> set (listed_docs tabs query (sp_cols res) m) \<and>
           (distinct (map fst (sp_ents res)) \<longrightarrow> distinct (map fst (sp_ents res1)))"
proof -
  from assms obtain pos_of val_of where tm: "tabs m = Some (pos_of, val_of)"
    by (auto split: option.splits)
  show ?thesis
  proof (cases "pos_of query")
    case None
    then have "add_meta tabs query s ms res = Inr res'"
      using assms tm by simp
    moreover have "listed_docs tabs query (sp_cols res) m = []"
      using tm None by (simp add: listed_docs_def)
    ultimately show ?thesis
      using source_boost_no_key [of tabs m pos_of val_of query, OF tm None]
      by (intro exI [of _ res]) simp
  next
    case (Some pos)
    from assms tm Some obtain idx where idx: "norm_indices (sp_cols res) pos = Inr idx"
      by (auto split: sum.splits)
    from assms tm Some idx obtain vals where vals: "val_of query = Some vals"
      by (auto split: option.splits)
    from assms tm Some idx vals obtain bs' where
      bs': "broadcast_to (map (\<lambda>b. b * s) vals) (length idx) = Inr bs'"
      by (auto split: sum.splits)
    then obtain bs where bs: "broadcast_to vals (length idx) = Inr bs" "bs' = map (\<lambda>b. b * s) bs"
      by (auto simp: broadcast_to_map split: sum.splits)
    let ?res1 = "iadd_cols res idx bs'"
    have run: "add_meta tabs query s ms ?res1 = Inr res'"
      using assms tm Some idx vals bs' by simp
    have ld: "listed_docs tabs query (sp_cols res) m = idx"
      using tm Some idx by (simp add: listed_docs_def)
    have len: "length idx = length bs'"
      using broadcast_to_length [OF bs'] by simp
    have sb: "source_boost tabs query (sp_cols res) m d =
                (case map_of (rev (zip idx bs)) d of None \<Rightarrow> 0 | Some b \<Rightarrow> b)" for d
      using tm vals bs(1) by (simp add: source_boost_def ld)
    have val: "value_at (sp_ents ?res1) d =
                 fl_add (value_at (sp_ents res) d) (Fin (source_boost tabs query (sp_cols res) m d * s))"
      for d
      by (simp add: value_at_iadd_cols bs(2) map_of_rev_zip_map sb split: option.splits)
    show ?thesis
      using run val iadd_cols_shape(1) [of res idx bs'] iadd_cols_shape(2) [OF len, of res]
        iadd_cols_shape(3) [of res idx bs']
      by (intro exI [of _ ?res1]) (simp add: ld)
  qed
qed

lemma add_meta_value:
  assumes "add_meta tabs query s ms res = Inr res'"
  shows "sp_cols res' = sp_cols res \<and>
         (\<forall>d. value_at (sp_ents res') d =
                fl_add (value_at (sp_ents res) d) (Fin (meta_boost tabs query (sp_cols res) ms d * s))) \<and>
         fst ` set (sp_ents res') =
           fst ` set (sp_ents res) \<union> (\<Union>m \<in> set ms. set (listed_docs tabs query (sp_cols res) m)) \<and>
         (distinct (map fst (sp_ents res)) \<longrightarrow> distinct (map fst (sp_ents res')))"
  using assms
proof (induction ms arbitrary: res)
  case Nil
  then show ?case by (simp add: meta_boost_def)
next
  case (Cons m ms)
  from add_meta_step [OF Cons.prems] obtain res1 where
    r1: "add_meta tabs query s ms res1 = Inr res'" "sp_cols res1 = sp_cols res"
      "\<And>d. value_at (sp_ents res1) d =
             fl_add (value_at (sp_ents res) d) (Fin (source_boost tabs query (sp_cols res) m d * s))"
      "fst ` set (sp_ents res1) = fst ` set (sp_ents res) \<union> set (listed_docs tabs query (sp_cols res) m)"
      "distinct (map fst (sp_ents res)) \<longrightarrow> distinct (map fst (sp_ents res1))"
    by blast
  note ih = Cons.IH [OF r1(1)]
  have "value_at (sp_ents res') d =
          fl_add (value_at (sp_ents res) d) (Fin (meta_boost tabs query (sp_cols res) (m # ms) d * s))"
    for d
    using ih r1(2) r1(3) [of d]
    by (simp add: meta_boost_def fl_add_Fin_Fin distrib_right)
  then show ?case
    using ih r1(2,4,5) by auto
qed

lemma doc_dict_3_iff: "len_doc_dict dd = 4 \<longleftrightarrow> doc_dict_3 dd \<noteq> None"
  by (cases dd) simp_all

lemma add_meta_succeeds:
  "(\<exists>res'. add_meta tabs query s ms res = Inr res') \<longleftrightarrow>
     list_all (source_ok tabs query (sp_cols res)) ms"
proof (induction ms arbitrary: res)
  case Nil
  then show ?case by simp
next
  case (Cons m ms)
  show ?case
  proof (cases "source_ok tabs query (sp_cols res) m")
    case False
    then have "\<exists>e. add_meta tabs query s (m # ms) res = Inl e"
      by (auto simp: source_ok_def broadcast_to_map split: option.splits sum.splits)
    with False show ?thesis by auto
  next
    case True
    then obtain pos_of val_of where tm: "tabs m = Some (pos_of, val_of)"
      by (auto simp: source_ok_def split: option.splits)
    have "\<exists>res1. add_meta tabs query s (m # ms) res = add_meta tabs query s ms res1 \<and>
            sp_cols res1 = sp_cols res"
    proof (cases "pos_of query")
      case None
      with tm have "add_meta tabs query s (m # ms) res = add_meta tabs query s ms res"
        by simp
      then show ?thesis by blast
    next
      case (Some pos)
      from True tm Some obtain idx where idx: "norm_indices (sp_cols res) pos = Inr idx"
        by (auto simp: source_ok_def split: sum.splits)
      from True tm Some idx obtain vals where vals: "val_of query = Some vals"
        by (auto simp: source_ok_def split: option.splits)
      from True tm Some idx vals obtain bs where bs: "broadcast_to vals (length idx) = Inr bs"
        by (auto simp: source_ok_def split: sum.splits)
      have "add_meta tabs query s (m # ms) res =
              add_meta tabs query s ms (iadd_cols res idx (map (\<lambda>b. b * s) bs))"
        using tm Some idx vals bs by (simp add: broadcast_to_map)
      then show ?thesis
        using iadd_cols_shape(1) by blast
    qed
    then obtain res1 where "add_meta tabs query s (m # ms) res = add_meta tabs query s ms res1"
      "sp_cols res1 = sp_cols res"
      by blast
    with True Cons.IH [of res1] show ?thesis by simp
  qed
qed

lemma score_row_value:
  assumes "score_row r v query meta s = Inr res"
  shows "sp_cols res = mat_cols (doc_mat r) \<and> distinct (map fst (sp_ents res)) \<and>
         (\<forall>d. value_at (sp_ents res) d =
                fl_add (lexical_score v (doc_mat r) d) (Fin (doc_boost r query meta d * s))) \<and>
         fst ` set (sp_ents res) =
           {d. lexical_score v (doc_mat r) d \<noteq> Fin 0} \<union> set (boosted_docs r query meta)"
proof -
  from assms obtain res0 where r0: "csr_matmat v (doc_mat r) = Inr res0"
    by (auto simp: score_row_def split: sum.splits)
  then have dims: "sp_cols v = length (mat_rows (doc_mat r))"
    by (auto simp: csr_matmat_def split: if_splits)
  from csr_matmat_ok [OF dims] r0 have p0: "sp_cols res0 = mat_cols (doc_mat r)"
    "distinct (map fst (sp_ents res0))"
    "\<And>d. value_at (sp_ents res0) d = lexical_score v (doc_mat r) d"
    "fst ` set (sp_ents res0) = {d. lexical_score v (doc_mat r) d \<noteq> Fin 0}"
    by (auto simp: lexical_score_def)
  show ?thesis
  proof (cases "doc_dict_3 (doc_dict r)")
    case None
    then have "res = res0"
      using assms r0 by (simp add: score_row_def doc_dict_3_iff)
    with p0 None show ?thesis
      by (simp add: doc_boost_def boosted_docs_def)
  next
    case (Some tabs)
    then have "len_doc_dict (doc_dict r) = 4"
      by (simp add: doc_dict_3_iff)
    with Some have "add_meta tabs query s meta res0 = Inr res"
      using assms r0 by (simp add: score_row_def)
    from add_meta_value [OF this] p0 Some show ?thesis
      by (simp add: doc_boost_def boosted_docs_def)
  qed
qed

lemma score_row_succeeds:
  "(\<exists>res. score_row r v query meta s = Inr res) \<longleftrightarrow>
     sp_cols v = length (mat_rows (doc_mat r)) \<and> meta_ok r query meta"
proof (cases "sp_cols v = length (mat_rows (doc_mat r))")
  case False
  then show ?thesis
    by (simp add: score_row_def csr_matmat_def)
next
  case True
  from csr_matmat_ok [OF True] obtain res0 where
    r0: "csr_matmat v (doc_mat r) = Inr res0" "sp_cols res0 = mat_cols (doc_mat r)"
    by blast
  show ?thesis
  proof (cases "doc_dict_3 (doc_dict r)")
    case None
    then show ?thesis
      using True r0 by (simp add: score_row_def meta_ok_def)
  next
    case (Some tabs)
    then have "len_doc_dict (doc_dict r) = 4"
      by (simp add: doc_dict_3_iff)
    with Some True r0 add_meta_succeeds [of tabs query s meta res0] show ?thesis
      by (simp add: score_row_def meta_ok_def)
  qed
qed


subsection \<open>Sorting and selection\<close>

lemma perm_upt_props:
  assumes "mset p = mset [0..<n]"
  shows "distinct p" "set p = {0..<n}" "length p = n"
proof -
  show "distinct p"
    using assms by (metis distinct_upt mset_eq_imp_distinct_iff)
  show "set p = {0..<n}"
    using assms by (metis mset_eq_setD set_upt)
  show "length p = n"
    using assms by (metis length_upt mset_eq_length minus_nat.diff_0)
qed

lemma mset_map_nth_perm:
  assumes "mset p = mset [0..<length xs]"
  shows "mset (map ((!) xs) p) = mset xs"
proof -
  have "mset (map ((!) xs) p) = image_mset ((!) xs) (mset [0..<length xs])"
    using assms by simp
  also have "\<dots> = mset (map ((!) xs) [0..<length xs])"
    by simp
  also have "\<dots> = mset xs"
    by (simp add: map_nth)
  finally show ?thesis .
qed

lemma is_argsort_sort: "is_argsort xs p \<Longrightarrow> map ((!) xs) p = sort xs"
  unfolding is_argsort_def
  by (metis mset_map_nth_perm properties_for_sort)

lemma sort_cong_mset: "mset xs = mset ys \<Longrightarrow> sort xs = sort ys"
  by (metis mset_sort properties_for_sort sorted_sort)

lemma sort_take_partitioned:
  fixes ys :: "fl list"
  assumes "kth < length ys"
    and "\<forall>i < length ys. (i < kth \<longrightarrow> ys ! i \<le> ys ! kth) \<and> (kth < i \<longrightarrow> ys ! kth \<le> ys ! i)"
  shows "sort (take kth ys) = take kth (sort ys)"
proof -
  have le: "x \<le> y" if "x \<in> set (take kth ys)" "y \<in> set (drop kth ys)" for x y
  proof -
    from that(1) obtain i where i: "i < kth" "x = ys ! i"
      using assms(1) by (auto simp: in_set_conv_nth)
    from that(2) obtain j where j: "kth \<le> j" "j < length ys" "y = ys ! j"
      using assms(1) by (auto simp: in_set_conv_nth) (metis add.commute le_add2 less_diff_conv)
    have "x \<le> ys ! kth"
      using i assms by auto
    moreover have "ys ! kth \<le> y"
      using j assms(2) by (cases "j = kth") auto
    ultimately show ?thesis by simp
  qed
  have "sort ys = sort (take kth ys @ drop kth ys)"
    by simp
  also have "\<dots> = sort (take kth ys) @ sort (drop kth ys)"
    using le by (rule sort_append)
  finally have "take kth (sort ys) = take kth (sort (take kth ys) @ sort (drop kth ys))"
    by simp
  also have "\<dots> = sort (take kth ys)"
    using assms(1) by simp
  finally show ?thesis by simp
qed


lemma map_nth_map: "set p \<subseteq> {0..<length xs} \<Longrightarrow> map ((!) (map f xs)) p = map f (map ((!) xs) p)"
  by (induction p) auto

lemma distinct_map_nth:
  "distinct p \<Longrightarrow> distinct a \<Longrightarrow> set a \<subseteq> {0..<length p} \<Longrightarrow> distinct (map ((!) p) a)"
  by (auto simp: distinct_map inj_on_def nth_eq_iff_index_eq subset_iff)

lemma top_k_all:
  assumes ok: "numpy_ok np" and k: "int (length (sp_ents res)) \<le> k"
  shows "\<exists>os. top_k np res k = Inr (map ((!) (map fst (sp_ents res))) os, map ((!) (map snd (sp_ents res))) os) \<and>
           mset os = mset [0..<length (sp_ents res)] \<and>
           map ((!) (map fl_neg (map snd (sp_ents res)))) os = sort (map fl_neg (map snd (sp_ents res)))"
proof -
  let ?neg = "map fl_neg (map snd (sp_ents res))"
  let ?os = "argsort np ?neg"
  have a: "is_argsort ?neg ?os"
    using ok by (simp add: numpy_ok_def)
  have "top_k np res k = Inr (map ((!) (map fst (sp_ents res))) ?os, map ((!) (map snd (sp_ents res))) ?os)"
    using k by (simp add: top_k_def Let_def)
  moreover have "mset ?os = mset [0..<length (sp_ents res)]"
    using a by (simp add: is_argsort_def)
  ultimately show ?thesis
    using is_argsort_sort [OF a] by blast
qed

lemma top_k_part:
  assumes ok: "numpy_ok np" and k: "0 \<le> k" "k < int (length (sp_ents res))"
  shows "\<exists>os. top_k np res k = Inr (map ((!) (map fst (sp_ents res))) os, map ((!) (map snd (sp_ents res))) os) \<and>
           distinct os \<and> set os \<subseteq> {0..<length (sp_ents res)} \<and> length os = nat k \<and>
           map ((!) (map fl_neg (map snd (sp_ents res)))) os =
             take (nat k) (sort (map fl_neg (map snd (sp_ents res))))"
proof -
  let ?n = "length (sp_ents res)"
  let ?neg = "map fl_neg (map snd (sp_ents res))"
  let ?kth = "nat k"
  let ?q = "argpartition np ?neg ?kth"
  let ?p = "take ?kth ?q"
  let ?a = "argsort np (map ((!) ?neg) ?p)"
  let ?os = "map ((!) ?p) ?a"
  have kth: "?kth < length ?neg"
    using k by simp
  have q: "is_argpartition ?neg ?kth ?q"
    using ok kth by (simp add: numpy_ok_def)
  then have qperm: "mset ?q = mset [0..<?n]"
    by (simp add: is_argpartition_def)
  note qp = perm_upt_props [OF qperm]
  have plen: "length ?p = ?kth"
    using kth qp(3) by simp
  have pset: "set ?p \<subseteq> {0..<?n}"
    using qp(2) by (metis set_take_subset)
  have pdist: "distinct ?p"
    using qp(1) by simp
  have a: "is_argsort (map ((!) ?neg) ?p) ?a"
    using ok by (simp add: numpy_ok_def)
  then have "mset ?a = mset [0..<length (map ((!) ?neg) ?p)]"
    unfolding is_argsort_def by (rule conjunct1)
  then have aperm: "mset ?a = mset [0..<?kth]"
    by (simp only: length_map plen)
  note ap = perm_upt_props [OF aperm]
  have run: "top_k np res k =
               Inr (map ((!) (map fst (sp_ents res))) ?os, map ((!) (map snd (sp_ents res))) ?os)"
    using k by (simp add: top_k_def Let_def)
  have odist: "distinct ?os"
    using pdist ap(1) ap(2) plen by (intro distinct_map_nth) auto
  have oset: "set ?os \<subseteq> {0..<?n}"
  proof
    fix x
    assume "x \<in> set ?os"
    then obtain j where j: "j \<in> set ?a" "x = ?p ! j"
      by (auto simp only: set_map)
    from j(1) have "j < length ?p"
      unfolding ap(2) plen by simp
    then have "?p ! j \<in> set ?p"
      by (rule nth_mem)
    with pset j(2) show "x \<in> {0..<?n}"
      by blast
  qed
  have olen: "length ?os = ?kth"
    using ap(3) by simp
  let ?ys = "map ((!) ?neg) ?q"
  have ylen: "length ?ys = ?n"
    using qp(3) by simp
  have ysort: "sort ?ys = sort ?neg"
    using qperm by (intro sort_cong_mset mset_map_nth_perm) simp
  have part: "\<forall>i < length ?ys. (i < ?kth \<longrightarrow> ?ys ! i \<le> ?ys ! ?kth) \<and> (?kth < i \<longrightarrow> ?ys ! ?kth \<le> ?ys ! i)"
    using q kth qp(3) by (simp add: is_argpartition_def)
  have tk: "take ?kth ?ys = map ((!) ?neg) ?p"
    by (simp add: take_map)
  have "map ((!) ?neg) ?os = map ((!) (map ((!) ?neg) ?p)) ?a"
    using ap(2) plen by (simp add: subset_iff)
  also have "\<dots> = sort (map ((!) ?neg) ?p)"
    using a by (rule is_argsort_sort)
  also have "\<dots> = take ?kth (sort ?ys)"
    using sort_take_partitioned [of ?kth ?ys] kth part ylen unfolding tk by simp
  finally have "map ((!) ?neg) ?os = take ?kth (sort ?neg)"
    by (simp only: ysort)
  with run odist oset olen show ?thesis
    by blast
qed


lemma stable_argsort_ok: "is_argsort xs (stable_argsort xs)"
proof -
  let ?zs = "zip xs [0..<length xs]"
  have "map snd ?zs = [0..<length xs]"
    by (rule map_snd_zip) simp
  moreover have "mset (stable_argsort xs) = mset (map snd ?zs)"
    by (simp only: stable_argsort_def mset_map mset_sort)
  ultimately have perm: "mset (stable_argsort xs) = mset [0..<length xs]"
    by (simp only:)
  have "xs ! snd z = fst z" if "z \<in> set (sort_key fst ?zs)" for z
  proof -
    from that have "z \<in> set ?zs" by simp
    then show ?thesis
      by (auto simp: in_set_zip)
  qed
  then have "map ((!) xs) (stable_argsort xs) = map fst (sort_key fst ?zs)"
    by (simp add: stable_argsort_def)
  moreover have "sorted (map fst (sort_key fst ?zs))"
    by (rule sorted_sort_key)
  ultimately show ?thesis
    using perm by (simp add: is_argsort_def)
qed

lemma is_argsort_partition:
  assumes "is_argsort xs p" and "kth < length xs"
  shows "is_argpartition xs kth p"
proof -
  from assms(1) have perm: "mset p = mset [0..<length xs]" and srt: "sorted (map ((!) xs) p)"
    by (simp_all add: is_argsort_def)
  have len: "length p = length xs"
    using perm_upt_props(3) [OF perm] .
  have "map ((!) xs) p ! i \<le> map ((!) xs) p ! j" if "i \<le> j" "j < length xs" for i j
    using srt that len by (intro sorted_nth_mono) simp_all
  then have "xs ! (p ! i) \<le> xs ! (p ! j)" if "i \<le> j" "j < length xs" for i j
    using that len by (metis le_less_trans length_map nth_map)
  then show ?thesis
    using perm assms(2) by (simp add: is_argpartition_def)
qed

lemma numpy_ok_np_stable: "numpy_ok np_stable"
  by (simp add: numpy_ok_def np_stable_def stable_argsort_ok is_argsort_partition)

lemma fl_neg_neg [simp]: "fl_neg (fl_neg x) = x"
  by (cases x) simp_all

lemma top_k_result:
  assumes ok: "numpy_ok np" and k: "0 \<le> k"
  shows "\<exists>os. top_k np res k =
                Inr (map ((!) (map fst (sp_ents res))) os, map ((!) (map snd (sp_ents res))) os) \<and>
           distinct os \<and> set os \<subseteq> {0..<length (sp_ents res)} \<and>
           length os = min (nat k) (length (sp_ents res)) \<and>
           map ((!) (map fl_neg (map snd (sp_ents res)))) os =
             take (nat k) (sort (map fl_neg (map snd (sp_ents res)))) \<and>
           (int (length (sp_ents res)) \<le> k \<longrightarrow> mset os = mset [0..<length (sp_ents res)])"
proof (cases "int (length (sp_ents res)) \<le> k")
  case True
  from top_k_all [OF ok True] obtain os where
    os: "top_k np res k =
           Inr (map ((!) (map fst (sp_ents res))) os, map ((!) (map snd (sp_ents res))) os)"
      "mset os = mset [0..<length (sp_ents res)]"
      "map ((!) (map fl_neg (map snd (sp_ents res)))) os = sort (map fl_neg (map snd (sp_ents res)))"
    by blast
  note p = perm_upt_props [OF os(2)]
  have "take (nat k) (sort (map fl_neg (map snd (sp_ents res)))) =
          sort (map fl_neg (map snd (sp_ents res)))"
    using True by simp
  moreover have "min (nat k) (length (sp_ents res)) = length (sp_ents res)"
    using True by linarith
  ultimately show ?thesis
    using os p by (intro exI [of _ os]) simp
next
  case False
  with top_k_part [OF ok k, of res] obtain os where
    os: "top_k np res k =
           Inr (map ((!) (map fst (sp_ents res))) os, map ((!) (map snd (sp_ents res))) os)"
      "distinct os" "set os \<subseteq> {0..<length (sp_ents res)}" "length os = nat k"
      "map ((!) (map fl_neg (map snd (sp_ents res)))) os =
         take (nat k) (sort (map fl_neg (map snd (sp_ents res))))"
    by auto
  moreover have "min (nat k) (length (sp_ents res)) = nat k"
    using False by linarith
  ultimately show ?thesis
    using False by (intro exI [of _ os]) simp
qed

lemma zip_nth_fst_snd:
  "set os \<subseteq> {0..<length es} \<Longrightarrow>
   zip (map ((!) (map fst es)) os) (map ((!) (map snd es)) os) = map ((!) es) os"
  by (induction os) auto

lemma mset_map_nth_subset:
  assumes "distinct os" "set os \<subseteq> {0..<length es}"
  shows "mset (map ((!) es) os) \<subseteq># mset es"
proof -
  have "mset os \<subseteq># mset [0..<length es]"
  proof (rule mset_subset_eqI)
    fix a
    show "count (mset os) a \<le> count (mset [0..<length es]) a"
    proof (cases "a \<in> set os")
      case True
      then have "count (mset os) a = 1" "a < length es"
        using assms by (auto simp: distinct_count_atmost_1)
      then show ?thesis
        by (simp add: distinct_count_atmost_1)
    next
      case False
      then have "count (mset os) a = 0"
        by (simp only: count_mset_0_iff not_False_eq_True)
      then show ?thesis
        by (simp only: le0)
    qed
  qed
  then have "image_mset ((!) es) (mset os) \<subseteq># image_mset ((!) es) (mset [0..<length es])"
    by (rule image_mset_subseteq_mono)
  moreover have "image_mset ((!) es) (mset [0..<length es]) = mset es"
    by (metis map_nth mset_map)
  ultimately show ?thesis
    by simp
qed

text \<open>
  Claim C6. For a \<open>k\<close> that is not negative and any \<open>argsort\<close> and
  \<open>argpartition\<close> that keep numpy's contract, the selection of lines 79 to 88 returns
  \<open>min k n\<close> of the \<open>n\<close> stored candidates; the scores returned are the first
  \<open>k\<close> scores of the full descending sort of all candidates, in that order; the
  pairs returned are candidates, each taken at most as often as it is stored; and with
  \<open>n \<le> k\<close> they are all the candidates. Candidates with the same score differ
  only in which of them is taken and in their order.
\<close>

theorem top_k_prefix_of_full_sort:
  assumes "numpy_ok np" and "0 \<le> k"
  shows "\<exists>ids scores. top_k np res k = Inr (ids, scores) \<and>
           length ids = min (nat k) (length (sp_ents res)) \<and> length scores = length ids \<and>
           scores = take (nat k) (sort_desc (map snd (sp_ents res))) \<and>
           mset (zip ids scores) \<subseteq># mset (sp_ents res) \<and>
           (int (length (sp_ents res)) \<le> k \<longrightarrow> mset (zip ids scores) = mset (sp_ents res))"
proof -
  let ?es = "sp_ents res"
  from top_k_result [OF assms, of res] obtain os where
    os: "top_k np res k = Inr (map ((!) (map fst ?es)) os, map ((!) (map snd ?es)) os)"
      "distinct os" "set os \<subseteq> {0..<length ?es}" "length os = min (nat k) (length ?es)"
      "map ((!) (map fl_neg (map snd ?es))) os = take (nat k) (sort (map fl_neg (map snd ?es)))"
      "int (length ?es) \<le> k \<longrightarrow> mset os = mset [0..<length ?es]"
    by blast
  let ?ids = "map ((!) (map fst ?es)) os"
  let ?scores = "map ((!) (map snd ?es)) os"
  have z: "zip ?ids ?scores = map ((!) ?es) os"
    using os(3) by (rule zip_nth_fst_snd)
  have a: "map fl_neg ?scores = map ((!) (map fl_neg (map snd ?es))) os"
    using os(3) by (simp add: map_nth_map)
  have "?scores = map fl_neg (map fl_neg ?scores)"
    by (simp only: map_map comp_def fl_neg_neg map_ident)
  also have "\<dots> = map fl_neg (take (nat k) (sort (map fl_neg (map snd ?es))))"
    by (simp only: a os(5))
  also have "\<dots> = take (nat k) (sort_desc (map snd ?es))"
    by (simp only: sort_desc_def take_map)
  finally have sc: "?scores = take (nat k) (sort_desc (map snd ?es))" .
  have sub: "mset (zip ?ids ?scores) \<subseteq># mset ?es"
    unfolding z using os(2,3) by (rule mset_map_nth_subset)
  have all: "int (length ?es) \<le> k \<longrightarrow> mset (zip ?ids ?scores) = mset ?es"
  proof
    assume "int (length ?es) \<le> k"
    with os(6) have "mset os = mset [0..<length ?es]" by simp
    then show "mset (zip ?ids ?scores) = mset ?es"
      unfolding z by (rule mset_map_nth_perm)
  qed
  have len: "length ?ids = min (nat k) (length ?es)" "length ?scores = length ?ids"
    using os(4) by simp_all
  from os(1) len sc sub all show ?thesis
    by blast
qed

subsection \<open>closest\_docs\<close>

lemma is_descending_Fin: "is_descending (map Fin xs) \<longleftrightarrow> sorted (rev xs)"
proof -
  have "sorted (map fl_neg (map Fin xs)) \<longleftrightarrow> sorted_wrt (\<lambda>a b. b \<le> a) xs"
    by (induction xs) auto
  then show ?thesis
    by (simp add: is_descending_def sorted_wrt_rev)
qed

lemma closest_docs_unfold:
  assumes "closest_docs np r query meta s k = (lg, Inr (ids, scores))"
  shows "\<exists>v res. text2spvec r query = (lg, Inr v) \<and> score_row r v query meta s = Inr res \<and>
           top_k np res k = Inr (ids, scores)"
  using assms by (auto simp: closest_docs_def split: prod.splits sum.splits)

lemma closest_docs_entries:
  assumes "numpy_ok np" and "0 \<le> k"
    and "closest_docs np r query meta meta_scale k = (lg, Inr (ids, scores))"
  shows "length ids \<le> nat k \<and> length scores = length ids \<and> is_descending scores \<and> distinct ids \<and>
         (\<exists>v. text2spvec r query = (lg, Inr v) \<and>
            (\<forall>i < length ids.
               scores ! i = fl_add (lexical_score v (doc_mat r) (ids ! i))
                              (Fin (doc_boost r query meta (ids ! i) * meta_scale)) \<and>
               (lexical_score v (doc_mat r) (ids ! i) \<noteq> Fin 0 \<or>
                ids ! i \<in> set (boosted_docs r query meta))))"
proof -
  from closest_docs_unfold [OF assms(3)] obtain v res where
    v: "text2spvec r query = (lg, Inr v)" and res: "score_row r v query meta meta_scale = Inr res"
    and tk: "top_k np res k = Inr (ids, scores)"
    by blast
  let ?es = "sp_ents res"
  from score_row_value [OF res] have
    dist: "distinct (map fst ?es)" and
    val: "\<And>d. value_at ?es d = fl_add (lexical_score v (doc_mat r) d)
                                   (Fin (doc_boost r query meta d * meta_scale))" and
    keys: "fst ` set ?es = {d. lexical_score v (doc_mat r) d \<noteq> Fin 0} \<union> set (boosted_docs r query meta)"
    by auto
  from top_k_result [OF assms(1,2), of res] tk obtain os where
    os: "ids = map ((!) (map fst ?es)) os" "scores = map ((!) (map snd ?es)) os"
      "distinct os" "set os \<subseteq> {0..<length ?es}" "length os = min (nat k) (length ?es)"
      "map ((!) (map fl_neg (map snd ?es))) os = take (nat k) (sort (map fl_neg (map snd ?es)))"
    by auto
  have len: "length ids \<le> nat k" "length scores = length ids"
    using os(1,2,5) by simp_all
  have "set os \<subseteq> {0..<length (map snd ?es)}"
    using os(4) by simp
  from map_nth_map [OF this, of fl_neg]
  have "map fl_neg scores = take (nat k) (sort (map fl_neg (map snd ?es)))"
    unfolding os(2) using os(6) by (simp only:)
  then have desc: "is_descending scores"
    by (simp add: is_descending_def sorted_wrt_take)
  have dids: "distinct ids"
    unfolding os(1) using dist os(3,4) by (intro distinct_map_nth) simp_all
  have ent: "(ids ! i, scores ! i) \<in> set ?es" if "i < length ids" for i
  proof -
    from that have "os ! i < length ?es"
      using os(1,4) by (auto simp: subset_iff)
    then show ?thesis
      using that os(1,2) by (simp add: nth_mem)
  qed
  have each: "scores ! i = fl_add (lexical_score v (doc_mat r) (ids ! i))
                              (Fin (doc_boost r query meta (ids ! i) * meta_scale)) \<and>
              (lexical_score v (doc_mat r) (ids ! i) \<noteq> Fin 0 \<or>
               ids ! i \<in> set (boosted_docs r query meta))"
    if "i < length ids" for i
  proof -
    from ent [OF that] have "value_at ?es (ids ! i) = scores ! i"
      using dist by (intro value_at_stored)
    moreover from ent [OF that] have "ids ! i \<in> fst ` set ?es"
      by force
    ultimately show ?thesis
      using val [of "ids ! i"] keys by auto
  qed
  from len desc dids v each show ?thesis
    by blast
qed

text \<open>
  Claim C2, as the code has it. For a \<open>k\<close> that is not negative, what
  \<open>closest_docs\<close> returns has at most \<open>k\<close> documents, all different, with as many
  scores, in descending order of score (nan last); each score is the dot product of the
  query vector with the document's column plus the document's boost times
  \<open>meta_scale\<close>; and each document returned has a dot product that is not zero or is
  listed for the raw query by a requested meta source.
\<close>

theorem closest_docs_results:
  assumes "numpy_ok np" and "0 \<le> k"
    and "closest_docs np r query meta meta_scale k = (lg, Inr (ids, scores))"
  shows "length ids \<le> nat k \<and> length scores = length ids \<and> is_descending scores \<and> distinct ids \<and>
         (\<exists>v. text2spvec r query = (lg, Inr v) \<and>
            (\<forall>i < length ids.
               scores ! i = fl_add (lexical_score v (doc_mat r) (ids ! i))
                              (Fin (doc_boost r query meta (ids ! i) * meta_scale)) \<and>
               (lexical_score v (doc_mat r) (ids ! i) \<noteq> Fin 0 \<or>
                ids ! i \<in> set (boosted_docs r query meta))))"
  using assms by (rule closest_docs_entries)


lemmas ex_defs = ex_ranker_def parse_def ex_ngrams_def ex_normalize_def ex_hash_def

lemma text2spvec_ex_d:
  "text2spvec ex_ranker ''d'' = ([], Inr \<lparr>sp_cols = 4, sp_ents = [(3, Fin (ln 2 * ln 9))]\<rparr>)"
  by (simp add: text2spvec_def ex_defs log1p_def log_ratio_def idf_arg_def clamp_neg_def)

lemma score_row_ex_d:
  "score_row ex_ranker \<lparr>sp_cols = 4, sp_ents = [(3, Fin (ln 2 * ln 9))]\<rparr> ''d'' [''covidex''] s =
     Inr \<lparr>sp_cols = 4, sp_ents = [(0, Fin s), (2, Fin (3 * s))]\<rparr>"
  by (simp add: score_row_def csr_matmat_def contributions_def ex_ranker_def
      ex_tabs_def norm_indices_def norm_index_def broadcast_to_def iadd_cols_def value_at_def)

lemma top_k_ex_d:
  "top_k np_stable \<lparr>sp_cols = 4, sp_ents = [(0, Fin 100), (2, Fin 300)]\<rparr> 1 = Inr ([2], [Fin 300])"
  by (simp add: top_k_def np_stable_def stable_argsort_def)

lemma closest_docs_ex_d:
  "closest_docs np_stable ex_ranker ''d'' [''covidex''] 100 1 = ([], Inr ([2], [Fin 300]))"
  using score_row_ex_d [of 100] by (simp add: closest_docs_def text2spvec_ex_d top_k_ex_d)

lemma top_k_ex_d_neg:
  "top_k np_stable \<lparr>sp_cols = 4, sp_ents = [(0, Fin 100), (2, Fin 300)]\<rparr> (- 1) = Inr ([2], [Fin 300])"
  by (simp add: top_k_def np_stable_def stable_argsort_def)

lemma closest_docs_ex_d_neg:
  "closest_docs np_stable ex_ranker ''d'' [''covidex''] 100 (- 1) = ([], Inr ([2], [Fin 300]))"
  using score_row_ex_d [of 100] by (simp add: closest_docs_def text2spvec_ex_d top_k_ex_d_neg)

lemma lexical_score_ex_d:
  "lexical_score \<lparr>sp_cols = 4, sp_ents = [(3, Fin (ln 2 * ln 9))]\<rparr> (doc_mat ex_ranker) 2 = Fin 0"
  by (simp add: lexical_score_def contributions_def col_sum_def ex_ranker_def)


theorem closest_docs_results_witness:
  "numpy_ok np_stable \<and> (0::int) \<le> 1 \<and>
   closest_docs np_stable ex_ranker ''d'' [''covidex''] 100 1 = ([], Inr ([2], [Fin 300])) \<and>
   length [2::nat] \<le> nat 1 \<and> is_descending [Fin 300] \<and>
   (\<exists>v. text2spvec ex_ranker ''d'' = ([], Inr v) \<and>
      Fin 300 = fl_add (lexical_score v (doc_mat ex_ranker) 2)
                  (Fin (doc_boost ex_ranker ''d'' [''covidex''] 2 * 100)))"
proof -
  have k: "(0::int) \<le> 1"
    by simp
  from closest_docs_results [OF numpy_ok_np_stable k closest_docs_ex_d]
  show ?thesis
    using numpy_ok_np_stable closest_docs_ex_d by auto
qed

text \<open>
  Claim C2 as stated fails: the query \<open>d\<close> hashes to bucket 3, which no document
  has, so every dot product is zero; the meta source lists documents 0 and 2 for it, and
  \<open>closest_docs\<close> with \<open>k = 1\<close> returns document 2, whose dot product is zero.
  With \<open>k = -1\<close> it returns one result, which is more than \<open>k\<close>.
\<close>

theorem closest_docs_returns_boosted_only_doc:
  "closest_docs np_stable ex_ranker ''d'' [''covidex''] 100 1 = ([], Inr ([2], [Fin 300])) \<and>
   text2spvec ex_ranker ''d'' = ([], Inr \<lparr>sp_cols = 4, sp_ents = [(3, Fin (ln 2 * ln 9))]\<rparr>) \<and>
   lexical_score \<lparr>sp_cols = 4, sp_ents = [(3, Fin (ln 2 * ln 9))]\<rparr> (doc_mat ex_ranker) 2 = Fin 0 \<and>
   closest_docs np_stable ex_ranker ''d'' [''covidex''] 100 (- 1) = ([], Inr ([2], [Fin 300]))"
  using closest_docs_ex_d closest_docs_ex_d_neg text2spvec_ex_d lexical_score_ex_d by simp

theorem top_k_prefix_of_full_sort_witness:
  "numpy_ok np_stable \<and> (0::int) \<le> 1 \<and>
   (\<exists>ids scores.
      top_k np_stable \<lparr>sp_cols = 4, sp_ents = [(0, Fin 100), (2, Fin 300)]\<rparr> 1 = Inr (ids, scores) \<and>
      length ids = 1 \<and> scores = take 1 (sort_desc [Fin 100, Fin 300]) \<and>
      mset (zip ids scores) \<subseteq># mset [(0, Fin 100), (2, Fin 300)])"
proof -
  have k: "(0::int) \<le> 1"
    by simp
  from top_k_prefix_of_full_sort [OF numpy_ok_np_stable k,
      of "\<lparr>sp_cols = 4, sp_ents = [(0, Fin 100), (2, Fin 300)]\<rparr>"]
  show ?thesis
    using numpy_ok_np_stable by auto
qed

subsection \<open>Meta scores and doc\_scores\<close>

lemma map_of_rev_zip_last:
  assumes "length bs = length idx" "i < length idx"
    and "\<forall>j. i < j \<and> j < length idx \<longrightarrow> idx ! j \<noteq> idx ! i"
  shows "map_of (rev (zip idx bs)) (idx ! i) = Some (bs ! i)"
  using assms
proof (induction idx arbitrary: bs i)
  case Nil
  then show ?case by simp
next
  case (Cons a idx)
  from Cons.prems(1) obtain b bs' where bs: "bs = b # bs'" "length bs' = length idx"
    by (cases bs) auto
  show ?case
  proof (cases i)
    case 0
    have "a \<notin> set idx"
    proof
      assume "a \<in> set idx"
      then obtain j where "j < length idx" "idx ! j = a"
        by (auto simp: in_set_conv_nth)
      with Cons.prems(3) [rule_format, of "Suc j"] 0 show False
        by simp
    qed
    then have "a \<notin> fst ` set (rev (zip idx bs'))"
      by (auto dest: set_zip_leftD)
    then have "map_of (rev (zip idx bs')) a = None"
      using map_of_eq_None_iff [of "rev (zip idx bs')" a] by blast
    with 0 bs show ?thesis
      by (simp add: map_add_def)
  next
    case (Suc i')
    have "\<forall>j. i' < j \<and> j < length idx \<longrightarrow> idx ! j \<noteq> idx ! i'"
    proof (intro allI impI)
      fix j
      assume "i' < j \<and> j < length idx"
      with Cons.prems(3) [rule_format, of "Suc j"] Suc show "idx ! j \<noteq> idx ! i'"
        by simp
    qed
    from Cons.IH [OF bs(2) _ this, of ] Cons.prems(2) Suc
    have "map_of (rev (zip idx bs')) (idx ! i') = Some (bs' ! i')"
      by simp
    with Suc bs show ?thesis
      by (simp add: map_add_def)
  qed
qed

lemma source_boost_last_listing:
  assumes "tabs m = Some (pos_of, val_of)" "pos_of query = Some pos" "val_of query = Some vals"
    and "norm_indices n pos = Inr idx" "length vals = length idx" "i < length idx"
    and "\<forall>j. i < j \<and> j < length idx \<longrightarrow> idx ! j \<noteq> idx ! i"
  shows "source_boost tabs query n m (idx ! i) = vals ! i"
proof -
  have "listed_docs tabs query n m = idx"
    using assms(1,2,4) by (simp add: listed_docs_def)
  moreover have "broadcast_to vals (length idx) = Inr vals"
    using assms(5) by (simp add: broadcast_to_def)
  ultimately show ?thesis
    using assms(1,3) map_of_rev_zip_last [OF assms(5,6,7)]
    by (simp add: source_boost_def)
qed

lemma add_meta_ok_step:
  assumes "source_ok tabs query (sp_cols res) m"
  shows "\<exists>res1. sp_cols res1 = sp_cols res \<and>
           (\<forall>ms. add_meta tabs query s (m # ms) res = add_meta tabs query s ms res1)"
proof -
  from assms obtain pos_of val_of where tm: "tabs m = Some (pos_of, val_of)"
    by (auto simp: source_ok_def split: option.splits)
  show ?thesis
  proof (cases "pos_of query")
    case None
    with tm have "\<forall>ms. add_meta tabs query s (m # ms) res = add_meta tabs query s ms res"
      by simp
    then show ?thesis by blast
  next
    case (Some pos)
    from assms tm Some obtain idx where idx: "norm_indices (sp_cols res) pos = Inr idx"
      by (auto simp: source_ok_def split: sum.splits)
    from assms tm Some idx obtain vals where vals: "val_of query = Some vals"
      by (auto simp: source_ok_def split: option.splits)
    from assms tm Some idx vals obtain bs where bs: "broadcast_to vals (length idx) = Inr bs"
      by (auto simp: source_ok_def split: sum.splits)
    have "\<forall>ms. add_meta tabs query s (m # ms) res =
            add_meta tabs query s ms (iadd_cols res idx (map (\<lambda>b. b * s) bs))"
      using tm Some idx vals bs by (simp add: broadcast_to_map)
    then show ?thesis
      using iadd_cols_shape(1) by blast
  qed
qed

lemma add_meta_missing:
  assumes "list_all (source_ok tabs query (sp_cols res)) ms1" "tabs m = None"
  shows "add_meta tabs query s (ms1 @ m # ms2) res = Inl (KeyError m)"
  using assms(1)
proof (induction ms1 arbitrary: res)
  case Nil
  then show ?case using assms(2) by simp
next
  case (Cons a ms1)
  from Cons.prems have a: "source_ok tabs query (sp_cols res) a"
    and rest: "list_all (source_ok tabs query (sp_cols res)) ms1"
    by simp_all
  from add_meta_ok_step [OF a, of s] obtain res1 where
    r1: "sp_cols res1 = sp_cols res"
      "\<And>ms. add_meta tabs query s (a # ms) res = add_meta tabs query s ms res1"
    by blast
  from rest r1(1) have "list_all (source_ok tabs query (sp_cols res1)) ms1"
    by simp
  from Cons.IH [OF this] r1(2) [of "ms1 @ m # ms2"] show ?case
    by simp
qed

lemma score_row_missing_source:
  assumes "sp_cols v = length (mat_rows (doc_mat r))" "doc_dict_3 (doc_dict r) = Some tabs"
    and "list_all (source_ok tabs query (mat_cols (doc_mat r))) ms1" "tabs m = None"
  shows "score_row r v query (ms1 @ m # ms2) s = Inl (KeyError m)"
proof -
  from csr_matmat_ok [OF assms(1)] obtain res0 where
    r0: "csr_matmat v (doc_mat r) = Inr res0" "sp_cols res0 = mat_cols (doc_mat r)"
    by blast
  have "len_doc_dict (doc_dict r) = 4"
    using assms(2) by (simp add: doc_dict_3_iff)
  moreover have "add_meta tabs query s (ms1 @ m # ms2) res0 = Inl (KeyError m)"
    using assms(3,4) r0(2) by (intro add_meta_missing) simp_all
  ultimately show ?thesis
    using r0(1) assms(2) by (simp add: score_row_def)
qed

lemma source_boost_not_listed:
  "d \<notin> set (listed_docs tabs query n m) \<Longrightarrow> source_boost tabs query n m d = 0"
proof -
  assume d: "d \<notin> set (listed_docs tabs query n m)"
  have "map_of (rev (zip (listed_docs tabs query n m) bs)) d = None" for bs :: "real list"
  proof -
    have "d \<notin> fst ` set (rev (zip (listed_docs tabs query n m) bs))"
      using d by (auto dest: set_zip_leftD)
    then show ?thesis
      using map_of_eq_None_iff [of "rev (zip (listed_docs tabs query n m) bs)" d] by blast
  qed
  then show ?thesis
    by (simp add: source_boost_def split: option.splits sum.splits)
qed

lemma listed_docs_no_key:
  "tabs m = Some (pos_of, val_of) \<Longrightarrow> pos_of query = None \<Longrightarrow> listed_docs tabs query n m = []"
  by (simp add: listed_docs_def)

lemma meta_boost_zero:
  "(\<forall>m \<in> set ms. source_boost tabs query n m d = 0) \<Longrightarrow> meta_boost tabs query n ms d = 0"
  by (induction ms) (simp_all add: meta_boost_def)

text \<open>
  Claim C4, as the code has it. The row of scores is computed exactly when the query
  vector fits the matrix and the loop over the meta sources raises nothing, which needs
  every requested source in the table; the first requested source missing from the table
  raises KeyError with its name, whatever the sources before it added. When the row is
  computed, the value at every document is its dot product plus its boost times
  \<open>meta_scale\<close>. The boost of a document is zero without the fourth component of
  \<open>doc_dict\<close>, and with it the sum, over the requested sources, of what each source
  gives: for a source that has the raw query as a key, with as many boost values as
  positions, the boost value at the last listing of the document's position (a position
  listed twice keeps only its last boost); nothing for a document the source does not
  list for the query; nothing when the query is not a key of the source. Both
  \<open>closest_docs\<close> and \<open>doc_scores\<close> work on this row.
\<close>

theorem meta_scores_added:
  "((\<exists>res. score_row r v query meta meta_scale = Inr res) \<longleftrightarrow>
      sp_cols v = length (mat_rows (doc_mat r)) \<and> meta_ok r query meta) \<and>
   (\<forall>res. score_row r v query meta meta_scale = Inr res \<longrightarrow>
      (\<forall>d. value_at (sp_ents res) d =
             fl_add (lexical_score v (doc_mat r) d) (Fin (doc_boost r query meta d * meta_scale)))) \<and>
   (doc_dict_3 (doc_dict r) = None \<longrightarrow> doc_boost r query meta d = 0) \<and>
   (\<forall>tabs. doc_dict_3 (doc_dict r) = Some tabs \<longrightarrow>
      doc_boost r query meta d = (\<Sum>m\<leftarrow>meta. source_boost tabs query (mat_cols (doc_mat r)) m d) \<and>
      (\<forall>m pos_of val_of pos vals idx i.
         tabs m = Some (pos_of, val_of) \<and> pos_of query = Some pos \<and> val_of query = Some vals \<and>
         norm_indices (mat_cols (doc_mat r)) pos = Inr idx \<and> length vals = length idx \<and>
         i < length idx \<and> (\<forall>j. i < j \<and> j < length idx \<longrightarrow> idx ! j \<noteq> idx ! i) \<longrightarrow>
         source_boost tabs query (mat_cols (doc_mat r)) m (idx ! i) = vals ! i) \<and>
      (\<forall>m. d \<notin> set (listed_docs tabs query (mat_cols (doc_mat r)) m) \<longrightarrow>
         source_boost tabs query (mat_cols (doc_mat r)) m d = 0) \<and>
      (\<forall>m pos_of val_of. tabs m = Some (pos_of, val_of) \<and> pos_of query = None \<longrightarrow>
         source_boost tabs query (mat_cols (doc_mat r)) m d = 0) \<and>
      (\<forall>ms1 m ms2.
         meta = ms1 @ m # ms2 \<and> sp_cols v = length (mat_rows (doc_mat r)) \<and>
         list_all (source_ok tabs query (mat_cols (doc_mat r))) ms1 \<and> tabs m = None \<longrightarrow>
         score_row r v query meta meta_scale = Inl (KeyError m))) \<and>
   (\<forall>lg spvec. text2spvec r query = (lg, Inr spvec) \<longrightarrow>
      closest_docs np r query meta meta_scale k =
        (lg, case score_row r spvec query meta meta_scale of
               Inl e \<Rightarrow> Inl e | Inr res \<Rightarrow> top_k np res k) \<and>
      doc_scores r (query, doc_idx) meta meta_scale =
        (lg, case score_row r spvec query meta meta_scale of
               Inl e \<Rightarrow> Inl e
             | Inr res \<Rightarrow>
                 (case norm_indices (sp_cols res) doc_idx of
                    Inl e \<Rightarrow> Inl e
                  | Inr idx \<Rightarrow> Inr (map (value_at (sp_ents res)) idx))))"
proof -
  let ?n = "mat_cols (doc_mat r)"
  have s: "(\<exists>res. score_row r v query meta meta_scale = Inr res) \<longleftrightarrow>
      sp_cols v = length (mat_rows (doc_mat r)) \<and> meta_ok r query meta"
    by (rule score_row_succeeds)
  have a: "\<forall>res. score_row r v query meta meta_scale = Inr res \<longrightarrow>
      (\<forall>d. value_at (sp_ents res) d =
             fl_add (lexical_score v (doc_mat r) d) (Fin (doc_boost r query meta d * meta_scale)))"
    using score_row_value by blast
  have b: "doc_dict_3 (doc_dict r) = None \<longrightarrow> doc_boost r query meta d = 0"
    by (simp add: doc_boost_def)
  have c1: "doc_boost r query meta d = (\<Sum>m\<leftarrow>meta. source_boost tabs query ?n m d)"
    if "doc_dict_3 (doc_dict r) = Some tabs" for tabs
    using that by (simp add: doc_boost_def meta_boost_def)
  have c2: "\<forall>m pos_of val_of pos vals idx i.
         tabs m = Some (pos_of, val_of) \<and> pos_of query = Some pos \<and> val_of query = Some vals \<and>
         norm_indices ?n pos = Inr idx \<and> length vals = length idx \<and>
         i < length idx \<and> (\<forall>j. i < j \<and> j < length idx \<longrightarrow> idx ! j \<noteq> idx ! i) \<longrightarrow>
         source_boost tabs query ?n m (idx ! i) = vals ! i"
    for tabs :: "string \<rightharpoonup> meta_table"
    using source_boost_last_listing by blast
  have c3: "\<forall>m. d \<notin> set (listed_docs tabs query ?n m) \<longrightarrow> source_boost tabs query ?n m d = 0"
    for tabs
    using source_boost_not_listed by blast
  have c4: "\<forall>m pos_of val_of. tabs m = Some (pos_of, val_of) \<and> pos_of query = None \<longrightarrow>
         source_boost tabs query ?n m d = 0"
    for tabs :: "string \<rightharpoonup> meta_table"
    using source_boost_no_key by blast
  have c5: "\<forall>ms1 m ms2.
         meta = ms1 @ m # ms2 \<and> sp_cols v = length (mat_rows (doc_mat r)) \<and>
         list_all (source_ok tabs query ?n) ms1 \<and> tabs m = None \<longrightarrow>
         score_row r v query meta meta_scale = Inl (KeyError m)"
    if "doc_dict_3 (doc_dict r) = Some tabs" for tabs
    using score_row_missing_source [OF _ that] by blast
  have e: "\<forall>lg spvec. text2spvec r query = (lg, Inr spvec) \<longrightarrow>
      closest_docs np r query meta meta_scale k =
        (lg, case score_row r spvec query meta meta_scale of
               Inl e \<Rightarrow> Inl e | Inr res \<Rightarrow> top_k np res k) \<and>
      doc_scores r (query, doc_idx) meta meta_scale =
        (lg, case score_row r spvec query meta meta_scale of
               Inl e \<Rightarrow> Inl e
             | Inr res \<Rightarrow>
                 (case norm_indices (sp_cols res) doc_idx of
                    Inl e \<Rightarrow> Inl e
                  | Inr idx \<Rightarrow> Inr (map (value_at (sp_ents res)) idx)))"
    by (simp add: closest_docs_def doc_scores_def)
  have c: "\<forall>tabs. doc_dict_3 (doc_dict r) = Some tabs \<longrightarrow>
      doc_boost r query meta d = (\<Sum>m\<leftarrow>meta. source_boost tabs query ?n m d) \<and>
      (\<forall>m pos_of val_of pos vals idx i.
         tabs m = Some (pos_of, val_of) \<and> pos_of query = Some pos \<and> val_of query = Some vals \<and>
         norm_indices ?n pos = Inr idx \<and> length vals = length idx \<and>
         i < length idx \<and> (\<forall>j. i < j \<and> j < length idx \<longrightarrow> idx ! j \<noteq> idx ! i) \<longrightarrow>
         source_boost tabs query ?n m (idx ! i) = vals ! i) \<and>
      (\<forall>m. d \<notin> set (listed_docs tabs query ?n m) \<longrightarrow> source_boost tabs query ?n m d = 0) \<and>
      (\<forall>m pos_of val_of. tabs m = Some (pos_of, val_of) \<and> pos_of query = None \<longrightarrow>
         source_boost tabs query ?n m d = 0) \<and>
      (\<forall>ms1 m ms2.
         meta = ms1 @ m # ms2 \<and> sp_cols v = length (mat_rows (doc_mat r)) \<and>
         list_all (source_ok tabs query ?n) ms1 \<and> tabs m = None \<longrightarrow>
         score_row r v query meta meta_scale = Inl (KeyError m))"
  proof (intro allI impI)
    fix tabs
    assume t: "doc_dict_3 (doc_dict r) = Some tabs"
    from c1 [OF t] c2 [of tabs] c3 [of tabs] c4 [of tabs] c5 [OF t]
    show "doc_boost r query meta d = (\<Sum>m\<leftarrow>meta. source_boost tabs query ?n m d) \<and>
      (\<forall>m pos_of val_of pos vals idx i.
         tabs m = Some (pos_of, val_of) \<and> pos_of query = Some pos \<and> val_of query = Some vals \<and>
         norm_indices ?n pos = Inr idx \<and> length vals = length idx \<and>
         i < length idx \<and> (\<forall>j. i < j \<and> j < length idx \<longrightarrow> idx ! j \<noteq> idx ! i) \<longrightarrow>
         source_boost tabs query ?n m (idx ! i) = vals ! i) \<and>
      (\<forall>m. d \<notin> set (listed_docs tabs query ?n m) \<longrightarrow> source_boost tabs query ?n m d = 0) \<and>
      (\<forall>m pos_of val_of. tabs m = Some (pos_of, val_of) \<and> pos_of query = None \<longrightarrow>
         source_boost tabs query ?n m d = 0) \<and>
      (\<forall>ms1 m ms2.
         meta = ms1 @ m # ms2 \<and> sp_cols v = length (mat_rows (doc_mat r)) \<and>
         list_all (source_ok tabs query ?n) ms1 \<and> tabs m = None \<longrightarrow>
         score_row r v query meta meta_scale = Inl (KeyError m))"
      by (intro conjI)
  qed
  from s a b c e show ?thesis
    by (intro conjI)
qed


lemma sequence_e_map_Inr: "sequence_e (map (\<lambda>x. Inr (g x)) xs) = Inr (map g xs)"
  by (induction xs) simp_all

lemma norm_indices_in_range:
  assumes "\<forall>i \<in> set idx. 0 \<le> i \<and> i < int n"
  shows "norm_indices n idx = Inr (map nat idx)"
proof -
  have "map (norm_index n) idx = map (\<lambda>i. Inr (nat i)) idx"
    using assms by (intro map_cong [OF refl]) (simp add: norm_index_def)
  then show ?thesis
    unfolding norm_indices_def by (simp only: sequence_e_map_Inr)
qed

lemma lexical_score_no_shared_feature:
  assumes "\<forall>(j, x) \<in> set (sp_ents v). d \<notin> fst ` set (mat_rows M ! j)"
  shows "lexical_score v M d = Fin 0"
proof -
  have "d \<notin> fst ` set (contributions v M)"
  proof
    assume "d \<in> fst ` set (contributions v M)"
    then obtain j x b where "(j, x) \<in> set (sp_ents v)" "(d, b) \<in> set (mat_rows M ! j)"
      by (auto simp: contributions_def)
    with assms show False
      by force
  qed
  then show ?thesis
    unfolding lexical_score_def by (rule col_sum_untouched)
qed

text \<open>
  Claim C5. When the query gives a vector of the matrix's dimension, the matrix has
  \<open>num_docs\<close> columns, the meta sources raise nothing and every index is at least 0
  and below \<open>num_docs\<close>, \<open>doc_scores\<close> returns as many numbers as indices; the
  \<open>i\<close>-th is the boosted score of the document at the \<open>i\<close>-th index; and it is
  zero for a document that shares no bucket with the query and has no boost.
\<close>

theorem doc_scores_values:
  assumes "text2spvec r query = (lg, Inr v)"
    and "sp_cols v = length (mat_rows (doc_mat r))"
    and "mat_cols (doc_mat r) = num_docs r"
    and "meta_ok r query meta"
    and "\<forall>i \<in> set doc_idx. 0 \<le> i \<and> i < int (num_docs r)"
  shows "\<exists>ys. doc_scores r (query, doc_idx) meta meta_scale = (lg, Inr ys) \<and>
           length ys = length doc_idx \<and>
           (\<forall>i < length doc_idx.
              ys ! i = fl_add (lexical_score v (doc_mat r) (nat (doc_idx ! i)))
                         (Fin (doc_boost r query meta (nat (doc_idx ! i)) * meta_scale)) \<and>
              ((\<forall>(j, x) \<in> set (sp_ents v). nat (doc_idx ! i) \<notin> fst ` set (mat_rows (doc_mat r) ! j)) \<and>
               doc_boost r query meta (nat (doc_idx ! i)) = 0 \<longrightarrow> ys ! i = Fin 0))"
proof -
  from score_row_succeeds [of r v query meta meta_scale] assms(2,4)
  obtain res where res: "score_row r v query meta meta_scale = Inr res"
    by blast
  from score_row_value [OF res] have cols: "sp_cols res = mat_cols (doc_mat r)" and
    val: "\<And>d. value_at (sp_ents res) d =
            fl_add (lexical_score v (doc_mat r) d) (Fin (doc_boost r query meta d * meta_scale))"
    by auto
  have idx: "norm_indices (sp_cols res) doc_idx = Inr (map nat doc_idx)"
    using assms(3,5) cols by (intro norm_indices_in_range) simp
  let ?ys = "map (value_at (sp_ents res)) (map nat doc_idx)"
  have run: "doc_scores r (query, doc_idx) meta meta_scale = (lg, Inr ?ys)"
    using assms(1) res idx by (simp add: doc_scores_def)
  have each: "?ys ! i = fl_add (lexical_score v (doc_mat r) (nat (doc_idx ! i)))
                         (Fin (doc_boost r query meta (nat (doc_idx ! i)) * meta_scale))"
    if "i < length doc_idx" for i
    using that val by simp
  have zero: "?ys ! i = Fin 0"
    if "i < length doc_idx"
      "\<forall>(j, x) \<in> set (sp_ents v). nat (doc_idx ! i) \<notin> fst ` set (mat_rows (doc_mat r) ! j)"
      "doc_boost r query meta (nat (doc_idx ! i)) = 0" for i
    using each [OF that(1)] lexical_score_no_shared_feature [OF that(2)] that(3) by simp
  show ?thesis
    using run each zero by (intro exI [of _ ?ys]) simp
qed


lemma doc_scores_unfold:
  assumes "doc_scores r (query, doc_idx) meta s = (lg, Inr ys)"
  shows "\<exists>v res idx. text2spvec r query = (lg, Inr v) \<and> score_row r v query meta s = Inr res \<and>
           norm_indices (mat_cols (doc_mat r)) doc_idx = Inr idx \<and>
           ys = map (value_at (sp_ents res)) idx"
proof -
  from assms obtain v res idx where
    a: "text2spvec r query = (lg, Inr v)" "score_row r v query meta s = Inr res"
      "norm_indices (sp_cols res) doc_idx = Inr idx" "ys = map (value_at (sp_ents res)) idx"
    by (auto simp: doc_scores_def split: prod.splits sum.splits)
  from score_row_value [OF a(2)] have "sp_cols res = mat_cols (doc_mat r)"
    by simp
  with a show ?thesis
    by auto
qed

lemma doc_scores_succeeds:
  "(\<exists>lg ys. doc_scores r (query, doc_idx) meta s = (lg, Inr ys)) \<longleftrightarrow>
   (\<exists>lg v idx. text2spvec r query = (lg, Inr v) \<and> sp_cols v = length (mat_rows (doc_mat r)) \<and>
      meta_ok r query meta \<and> norm_indices (mat_cols (doc_mat r)) doc_idx = Inr idx)"
proof
  assume "\<exists>lg ys. doc_scores r (query, doc_idx) meta s = (lg, Inr ys)"
  then obtain lg ys where "doc_scores r (query, doc_idx) meta s = (lg, Inr ys)"
    by blast
  from doc_scores_unfold [OF this] obtain v res idx where
    a: "text2spvec r query = (lg, Inr v)" "score_row r v query meta s = Inr res"
      "norm_indices (mat_cols (doc_mat r)) doc_idx = Inr idx"
    by blast
  from a(2) score_row_succeeds [of r v query meta s]
  have "sp_cols v = length (mat_rows (doc_mat r)) \<and> meta_ok r query meta"
    by blast
  with a(1,3) show "\<exists>lg v idx. text2spvec r query = (lg, Inr v) \<and>
      sp_cols v = length (mat_rows (doc_mat r)) \<and> meta_ok r query meta \<and>
      norm_indices (mat_cols (doc_mat r)) doc_idx = Inr idx"
    by blast
next
  assume "\<exists>lg v idx. text2spvec r query = (lg, Inr v) \<and> sp_cols v = length (mat_rows (doc_mat r)) \<and>
      meta_ok r query meta \<and> norm_indices (mat_cols (doc_mat r)) doc_idx = Inr idx"
  then obtain lg v idx where
    a: "text2spvec r query = (lg, Inr v)" "sp_cols v = length (mat_rows (doc_mat r))"
      "meta_ok r query meta" "norm_indices (mat_cols (doc_mat r)) doc_idx = Inr idx"
    by blast
  from a(2,3) score_row_succeeds [of r v query meta s] obtain res where
    res: "score_row r v query meta s = Inr res"
    by blast
  from score_row_value [OF res] have "sp_cols res = mat_cols (doc_mat r)"
    by simp
  with a(1,4) res have "doc_scores r (query, doc_idx) meta s = (lg, Inr (map (value_at (sp_ents res)) idx))"
    by (simp add: doc_scores_def)
  then show "\<exists>lg ys. doc_scores r (query, doc_idx) meta s = (lg, Inr ys)"
    by blast
qed

lemma broadcast_to_set: "broadcast_to bs m = Inr cs \<Longrightarrow> set cs \<subseteq> set bs"
  by (cases bs) (auto simp: broadcast_to_def split: if_splits)

lemma source_boost_nonneg:
  assumes "\<And>pos_of val_of vals. tabs m = Some (pos_of, val_of) \<Longrightarrow> val_of query = Some vals \<Longrightarrow>
             \<forall>b \<in> set vals. 0 \<le> b"
  shows "0 \<le> source_boost tabs query n m d"
proof (cases "tabs m")
  case None
  then show ?thesis by (simp add: source_boost_def)
next
  case (Some t)
  obtain pos_of val_of where t: "t = (pos_of, val_of)" by (cases t)
  show ?thesis
  proof (cases "val_of query")
    case None
    with Some t show ?thesis by (simp add: source_boost_def)
  next
    case vals: (Some vals)
    show ?thesis
    proof (cases "broadcast_to vals (length (listed_docs tabs query n m))")
      case (Inl e)
      with Some t vals show ?thesis by (simp add: source_boost_def)
    next
      case (Inr bs)
      show ?thesis
      proof (cases "map_of (rev (zip (listed_docs tabs query n m) bs)) d")
        case None
        with Some t vals Inr show ?thesis by (simp add: source_boost_def)
      next
        case b: (Some b)
        then have "b \<in> set bs"
          by (auto dest!: map_of_SomeD set_zip_rightD)
        with broadcast_to_set [OF Inr] assms [of pos_of val_of vals] Some t vals have "0 \<le> b"
          by auto
        with Some t vals Inr b show ?thesis by (simp add: source_boost_def)
      qed
    qed
  qed
qed

lemma doc_boost_nonneg:
  assumes "\<forall>tabs m pos_of val_of vals.
             doc_dict_3 (doc_dict r) = Some tabs \<and> m \<in> set meta \<and> tabs m = Some (pos_of, val_of) \<and>
             val_of query = Some vals \<longrightarrow> (\<forall>b \<in> set vals. 0 \<le> b)"
  shows "0 \<le> doc_boost r query meta d"
proof (cases "doc_dict_3 (doc_dict r)")
  case None
  then show ?thesis by (simp add: doc_boost_def)
next
  case (Some tabs)
  have "0 \<le> source_boost tabs query (mat_cols (doc_mat r)) m d" if "m \<in> set meta" for m
    using assms Some that by (intro source_boost_nonneg) blast
  then have "0 \<le> (\<Sum>m\<leftarrow>meta. source_boost tabs query (mat_cols (doc_mat r)) m d)"
    by (intro sum_list_nonneg) auto
  with Some show ?thesis
    by (simp add: doc_boost_def meta_boost_def)
qed


lemma boosted_score_mono:
  assumes "s1 \<le> s2" "0 \<le> (B :: real)"
  shows "fl_add x (Fin (B * s1)) \<le> fl_add x (Fin (B * s2))"
  using assms by (intro fl_add_mono mult_left_mono)

text \<open>
  Claim C8, as the code has it. When the boost values that the requested meta sources
  hold for the query are not negative and \<open>s1 \<le> s2\<close>, every score that
  \<open>doc_scores\<close> returns with \<open>meta_scale = s2\<close> is at least the score at the same
  position with \<open>s1\<close>, \<open>doc_scores\<close> returns with one scale exactly when it does with
  the other, and a document that \<open>closest_docs\<close> returns with both scales has with
  \<open>s2\<close> at least the score it has with \<open>s1\<close>.
\<close>

theorem meta_scale_monotone:
  assumes "s1 \<le> s2"
    and "\<forall>tabs m pos_of val_of vals.
           doc_dict_3 (doc_dict r) = Some tabs \<and> m \<in> set meta \<and> tabs m = Some (pos_of, val_of) \<and>
           val_of query = Some vals \<longrightarrow> (\<forall>b \<in> set vals. 0 \<le> b)"
  shows "(\<forall>lg1 lg2 ys1 ys2.
            doc_scores r (query, doc_idx) meta s1 = (lg1, Inr ys1) \<and>
            doc_scores r (query, doc_idx) meta s2 = (lg2, Inr ys2) \<longrightarrow>
            list_all2 (\<le>) ys1 ys2) \<and>
         ((\<exists>lg ys. doc_scores r (query, doc_idx) meta s1 = (lg, Inr ys)) \<longleftrightarrow>
          (\<exists>lg ys. doc_scores r (query, doc_idx) meta s2 = (lg, Inr ys))) \<and>
         (numpy_ok np \<and> 0 \<le> k \<longrightarrow>
            (\<forall>lg1 lg2 ids1 sc1 ids2 sc2 i j.
               closest_docs np r query meta s1 k = (lg1, Inr (ids1, sc1)) \<and>
               closest_docs np r query meta s2 k = (lg2, Inr (ids2, sc2)) \<and>
               i < length ids1 \<and> j < length ids2 \<and> ids1 ! i = ids2 ! j \<longrightarrow>
               sc1 ! i \<le> sc2 ! j))"
proof -
  note B = doc_boost_nonneg [OF assms(2)]
  have ds: "list_all2 (\<le>) ys1 ys2"
    if "doc_scores r (query, doc_idx) meta s1 = (lg1, Inr ys1)"
      "doc_scores r (query, doc_idx) meta s2 = (lg2, Inr ys2)" for lg1 lg2 ys1 ys2
  proof -
    from doc_scores_unfold [OF that(1)] obtain v res1 idx where
      a: "text2spvec r query = (lg1, Inr v)" "score_row r v query meta s1 = Inr res1"
        "norm_indices (mat_cols (doc_mat r)) doc_idx = Inr idx"
        "ys1 = map (value_at (sp_ents res1)) idx"
      by blast
    from doc_scores_unfold [OF that(2)] a(1,3) obtain res2 where
      b: "score_row r v query meta s2 = Inr res2" "ys2 = map (value_at (sp_ents res2)) idx"
      by auto
    have "value_at (sp_ents res1) d \<le> value_at (sp_ents res2) d" for d
      using score_row_value [OF a(2)] score_row_value [OF b(1)]
        boosted_score_mono [OF assms(1) B [of d]] by simp
    then show ?thesis
      unfolding a(4) b(2) by (simp add: list_all2_conv_all_nth)
  qed
  have ex: "(\<exists>lg ys. doc_scores r (query, doc_idx) meta s1 = (lg, Inr ys)) \<longleftrightarrow>
            (\<exists>lg ys. doc_scores r (query, doc_idx) meta s2 = (lg, Inr ys))"
    by (simp only: doc_scores_succeeds)
  have cd: "sc1 ! i \<le> sc2 ! j"
    if "numpy_ok np" "0 \<le> k"
      "closest_docs np r query meta s1 k = (lg1, Inr (ids1, sc1))"
      "closest_docs np r query meta s2 k = (lg2, Inr (ids2, sc2))"
      "i < length ids1" "j < length ids2" "ids1 ! i = ids2 ! j"
    for lg1 lg2 ids1 sc1 ids2 sc2 i j
  proof -
    from closest_docs_entries [OF that(1,2,3)] that(5) obtain v where
      a: "text2spvec r query = (lg1, Inr v)"
        "sc1 ! i = fl_add (lexical_score v (doc_mat r) (ids1 ! i))
                     (Fin (doc_boost r query meta (ids1 ! i) * s1))"
      by blast
    from closest_docs_entries [OF that(1,2,4)] that(6) obtain v' where
      b: "text2spvec r query = (lg2, Inr v')"
        "sc2 ! j = fl_add (lexical_score v' (doc_mat r) (ids2 ! j))
                     (Fin (doc_boost r query meta (ids2 ! j) * s2))"
      by blast
    from a(1) b(1) have "v' = v"
      by simp
    with a(2) b(2) that(7) boosted_score_mono [OF assms(1) B [of "ids2 ! j"]] show ?thesis
      by simp
  qed
  from ds ex cd show ?thesis
    by blast
qed

subsection \<open>Runs on the small index\<close>

lemmas row_defs = score_row_def csr_matmat_def contributions_def col_sum_def ex_ranker_def
  ex_tabs_def norm_indices_def norm_index_def broadcast_to_def iadd_cols_def value_at_def

lemma text2spvec_ex_a:
  "text2spvec ex_ranker ''a'' = ([], Inr \<lparr>sp_cols = 4, sp_ents = [(0, Fin (ln 2 * ln (7 / 3)))]\<rparr>)"
  by (simp add: text2spvec_def ex_defs log1p_def log_ratio_def idf_arg_def clamp_neg_def)

lemma text2spvec_ex_e:
  "text2spvec ex_ranker ''e'' = ([], Inr \<lparr>sp_cols = 4, sp_ents = [(3, Fin (ln 2 * ln 9))]\<rparr>)"
  by (simp add: text2spvec_def ex_defs log1p_def log_ratio_def idf_arg_def clamp_neg_def)

lemma score_row_ex_a:
  "score_row ex_ranker \<lparr>sp_cols = 4, sp_ents = [(0, Fin (ln 2 * ln (7 / 3)))]\<rparr> ''a'' [''covidex''] s =
     Inr \<lparr>sp_cols = 4, sp_ents = [(1, Fin (ln 2 * ln (7 / 3) * 2))]\<rparr>"
  by (simp add: row_defs)

lemma doc_scores_ex_a:
  "doc_scores ex_ranker (''a'', [0, 1, 2]) [''covidex''] s =
     ([], Inr [Fin 0, Fin (ln 2 * ln (7 / 3) * 2), Fin 0])"
  by (simp add: doc_scores_def text2spvec_ex_a score_row_ex_a norm_indices_def norm_index_def
      value_at_def)

lemma score_row_ex_e:
  "score_row ex_ranker \<lparr>sp_cols = 4, sp_ents = [(3, Fin (ln 2 * ln 9))]\<rparr> ''e'' [''covidex''] s =
     Inr \<lparr>sp_cols = 4, sp_ents = [(3, Fin (- (2 * s)))]\<rparr>"
  by (simp add: row_defs)

lemma doc_scores_ex_e:
  "doc_scores ex_ranker (''e'', [3]) [''covidex''] s = ([], Inr [Fin (- (2 * s))])"
  by (simp add: doc_scores_def text2spvec_ex_e score_row_ex_e norm_indices_def norm_index_def
      value_at_def)

lemma doc_scores_ex_d:
  "doc_scores ex_ranker (''d'', [0, 2, 1]) [''covidex''] s = ([], Inr [Fin s, Fin (3 * s), Fin 0])"
  by (simp add: doc_scores_def text2spvec_ex_d score_row_ex_d norm_indices_def norm_index_def
      value_at_def)

lemma meta_ok_ex: "meta_ok ex_ranker q [''covidex'']"
  by (simp add: meta_ok_def source_ok_def ex_ranker_def ex_tabs_def norm_indices_def norm_index_def
      broadcast_to_def)


theorem doc_scores_values_witness:
  "text2spvec ex_ranker ''a'' = ([], Inr \<lparr>sp_cols = 4, sp_ents = [(0, Fin (ln 2 * ln (7 / 3)))]\<rparr>) \<and>
   meta_ok ex_ranker ''a'' [''covidex''] \<and>
   (\<exists>ys. doc_scores ex_ranker (''a'', [0, 1, 2]) [''covidex''] 100 = ([], Inr ys) \<and>
      length ys = 3 \<and> ys ! 0 = Fin 0 \<and> ys ! 2 = Fin 0 \<and>
      ys ! 1 = fl_add (lexical_score \<lparr>sp_cols = 4, sp_ents = [(0, Fin (ln 2 * ln (7 / 3)))]\<rparr>
                        (doc_mat ex_ranker) 1)
                 (Fin (doc_boost ex_ranker ''a'' [''covidex''] 1 * 100)))"
proof -
  let ?v = "\<lparr>sp_cols = 4, sp_ents = [(0, Fin (ln 2 * ln (7 / 3)))]\<rparr>"
  have h2: "sp_cols ?v = length (mat_rows (doc_mat ex_ranker))"
    by (simp add: ex_ranker_def)
  have h3: "mat_cols (doc_mat ex_ranker) = num_docs ex_ranker"
    by (simp add: ex_ranker_def)
  have h5: "\<forall>i \<in> set [0, 1, 2]. 0 \<le> i \<and> i < int (num_docs ex_ranker)"
    by (simp add: ex_ranker_def)
  from doc_scores_values [OF text2spvec_ex_a h2 h3 meta_ok_ex h5, of 100]
  obtain ys where ys: "doc_scores ex_ranker (''a'', [0, 1, 2]) [''covidex''] 100 = ([], Inr ys)"
    "length ys = length [0, 1, 2 :: int]"
    "\<forall>i < length [0, 1, 2 :: int].
       ys ! i = fl_add (lexical_score ?v (doc_mat ex_ranker) (nat ([0, 1, 2] ! i)))
                  (Fin (doc_boost ex_ranker ''a'' [''covidex''] (nat ([0, 1, 2] ! i)) * 100))"
    by blast
  from ys(3) have "ys ! 1 = fl_add (lexical_score ?v (doc_mat ex_ranker) 1)
                              (Fin (doc_boost ex_ranker ''a'' [''covidex''] 1 * 100))"
    by force
  moreover from ys(1) have "ys = [Fin 0, Fin (ln 2 * ln (7 / 3) * 2), Fin 0]"
    by (simp add: doc_scores_ex_a)
  ultimately show ?thesis
    using text2spvec_ex_a meta_ok_ex ys(1) by (intro conjI exI [of _ ys]) simp_all
qed

theorem meta_scale_monotone_witness:
  "(1::real) \<le> 2 \<and>
   doc_scores ex_ranker (''d'', [0, 2, 1]) [''covidex''] 1 = ([], Inr [Fin 1, Fin 3, Fin 0]) \<and>
   doc_scores ex_ranker (''d'', [0, 2, 1]) [''covidex''] 2 = ([], Inr [Fin 2, Fin 6, Fin 0]) \<and>
   list_all2 (\<le>) [Fin 1, Fin 3, Fin 0] [Fin 2, Fin 6, Fin 0]"
proof -
  have h1: "(1::real) \<le> 2"
    by simp
  have h2: "\<forall>tabs m pos_of val_of vals.
           doc_dict_3 (doc_dict ex_ranker) = Some tabs \<and> m \<in> set [''covidex''] \<and>
           tabs m = Some (pos_of, val_of) \<and> val_of ''d'' = Some vals \<longrightarrow> (\<forall>b \<in> set vals. 0 \<le> b)"
    by (auto simp: ex_ranker_def ex_tabs_def)
  have d1: "doc_scores ex_ranker (''d'', [0, 2, 1]) [''covidex''] 1 = ([], Inr [Fin 1, Fin 3, Fin 0])"
    using doc_scores_ex_d [of 1] by simp
  have d2: "doc_scores ex_ranker (''d'', [0, 2, 1]) [''covidex''] 2 = ([], Inr [Fin 2, Fin 6, Fin 0])"
    using doc_scores_ex_d [of 2] by simp
  from meta_scale_monotone [OF h1 h2, of "[0, 2, 1]" np_stable 1] d1 d2
  have "list_all2 (\<le>) [Fin 1, Fin 3, Fin 0] [Fin 2, Fin 6, Fin 0]"
    by blast
  with h1 d1 d2 show ?thesis
    by blast
qed

text \<open>
  Claim C8 as stated fails for a negative boost value: the meta source lists document 3
  for the query \<open>e\<close> with the boost -2, and the score of document 3 is -2 with
  \<open>meta_scale = 1\<close> and -4 with \<open>meta_scale = 2\<close>.
\<close>

theorem negative_boost_decreases_with_scale:
  "doc_scores ex_ranker (''e'', [3]) [''covidex''] 1 = ([], Inr [Fin (- 2)]) \<and>
   doc_scores ex_ranker (''e'', [3]) [''covidex''] 2 = ([], Inr [Fin (- 4)]) \<and>
   Fin (- 4) < Fin (- 2)"
  using doc_scores_ex_e [of 1] doc_scores_ex_e [of 2] by (simp add: less_fl_def)


theorem meta_scores_added_witness:
  "(\<exists>res. score_row ex_ranker \<lparr>sp_cols = 4, sp_ents = [(3, Fin (ln 2 * ln 9))]\<rparr> ''d''
            [''covidex''] 100 = Inr res) \<and>
   score_row ex_ranker \<lparr>sp_cols = 4, sp_ents = [(3, Fin (ln 2 * ln 9))]\<rparr> ''d'' [''covidex''] 100 =
     Inr \<lparr>sp_cols = 4, sp_ents = [(0, Fin 100), (2, Fin 300)]\<rparr> \<and>
   value_at [(0, Fin 100), (2, Fin 300)] 2 =
     fl_add (lexical_score \<lparr>sp_cols = 4, sp_ents = [(3, Fin (ln 2 * ln 9))]\<rparr> (doc_mat ex_ranker) 2)
       (Fin (doc_boost ex_ranker ''d'' [''covidex''] 2 * 100)) \<and>
   doc_boost (ex_ranker\<lparr>doc_dict := DocDict2 [] []\<rparr>) ''d'' [''covidex''] 2 = 0 \<and>
   doc_boost ex_ranker ''d'' [''covidex''] 2 = (\<Sum>m\<leftarrow>[''covidex'']. source_boost ex_tabs ''d'' 4 m 2) \<and>
   source_boost ex_tabs ''d'' 4 ''covidex'' 0 = 1 \<and>
   source_boost ex_tabs ''d'' 4 ''covidex'' 2 = 3 \<and>
   source_boost ex_tabs ''d'' 4 ''covidex'' 1 = 0 \<and>
   source_boost ex_tabs ''x'' 4 ''covidex'' 2 = 0 \<and>
   source_boost [''twice'' \<mapsto> ([''d'' \<mapsto> [2, 2]], [''d'' \<mapsto> [1, 3]])] ''d'' 4 ''twice'' 2 = 3 \<and>
   score_row ex_ranker \<lparr>sp_cols = 4, sp_ents = [(3, Fin (ln 2 * ln 9))]\<rparr> ''d''
     [''covidex'', ''other''] 100 = Inl (KeyError ''other'') \<and>
   closest_docs np_stable ex_ranker ''d'' [''covidex''] 100 1 =
     ([], case score_row ex_ranker \<lparr>sp_cols = 4, sp_ents = [(3, Fin (ln 2 * ln 9))]\<rparr> ''d''
                 [''covidex''] 100 of
            Inl e \<Rightarrow> Inl e | Inr res \<Rightarrow> top_k np_stable res 1)"
proof -
  let ?v = "\<lparr>sp_cols = 4, sp_ents = [(3, Fin (ln 2 * ln 9))]\<rparr>"
  let ?res = "\<lparr>sp_cols = 4, sp_ents = [(0, Fin 100), (2, Fin 300)]\<rparr>"
  let ?r0 = "ex_ranker\<lparr>doc_dict := DocDict2 [] []\<rparr>"
  let ?tw = "[''twice'' \<mapsto> ([''d'' \<mapsto> [2, 2]], [''d'' \<mapsto> [1, 3]])] :: string \<rightharpoonup> meta_table"
  have sr: "score_row ex_ranker ?v ''d'' [''covidex''] 100 = Inr ?res"
    using score_row_ex_d [of 100] by simp
  have d3: "doc_dict_3 (doc_dict ex_ranker) = Some ex_tabs"
    by (simp add: ex_ranker_def)
  have d0: "doc_dict_3 (doc_dict ?r0) = None"
    by simp
  have dt: "doc_dict_3 (doc_dict ex_twice) = Some ?tw"
    by (simp add: ex_twice_def)
  have n: "mat_cols (doc_mat ex_ranker) = 4"
    by (simp add: ex_ranker_def)
  have nt: "mat_cols (doc_mat ex_twice) = 4"
    by (simp add: ex_twice_def ex_ranker_def)
  have dims: "sp_cols ?v = length (mat_rows (doc_mat ex_ranker))"
    by (simp add: ex_ranker_def)
  have tm: "ex_tabs ''covidex'' =
      Some ([''d'' \<mapsto> [0, 2], ''e'' \<mapsto> [3]], [''d'' \<mapsto> [1, 3], ''e'' \<mapsto> [- 2]])"
    by (simp add: ex_tabs_def)
  have idx: "norm_indices 4 [0, 2] = Inr [0, 2]"
    by (simp add: norm_indices_def norm_index_def)
  have idxt: "norm_indices 4 [2, 2] = Inr [2, 2]"
    by (simp add: norm_indices_def norm_index_def)
  have nl: "1 \<notin> set (listed_docs ex_tabs ''d'' 4 ''covidex'')"
    by (simp add: listed_docs_def ex_tabs_def norm_indices_def norm_index_def)
  note T = meta_scores_added [where r = ex_ranker and v = ?v and query = "''d''"
      and meta = "[''covidex'']" and meta_scale = 100 and d = 2 and np = np_stable and k = 1
      and doc_idx = "[]"]
  note T1 = meta_scores_added [where r = ex_ranker and v = ?v and query = "''d''"
      and meta = "[''covidex'']" and meta_scale = 100 and d = 1 and np = np_stable and k = 1
      and doc_idx = "[]"]
  note T0 = meta_scores_added [where r = ?r0 and v = ?v and query = "''d''"
      and meta = "[''covidex'']" and meta_scale = 100 and d = 2 and np = np_stable and k = 1
      and doc_idx = "[]"]
  note Tx = meta_scores_added [where r = ex_ranker and v = ?v and query = "''x''"
      and meta = "[''covidex'']" and meta_scale = 100 and d = 2 and np = np_stable and k = 1
      and doc_idx = "[]"]
  note Tt = meta_scores_added [where r = ex_twice and v = ?v and query = "''d''"
      and meta = "[''twice'']" and meta_scale = 100 and d = 2 and np = np_stable and k = 1
      and doc_idx = "[]"]
  note To = meta_scores_added [where r = ex_ranker and v = ?v and query = "''d''"
      and meta = "[''covidex'', ''other'']" and meta_scale = 100 and d = 2 and np = np_stable
      and k = 1 and doc_idx = "[]"]
  have ok: "sp_cols ?v = length (mat_rows (doc_mat ex_ranker)) \<and> meta_ok ex_ranker ''d'' [''covidex'']"
    using dims meta_ok_ex by (intro conjI)
  have w0: "\<exists>res. score_row ex_ranker ?v ''d'' [''covidex''] 100 = Inr res"
    by (rule T [THEN conjunct1, THEN iffD2, OF ok])
  have w1: "value_at (sp_ents ?res) 2 =
      fl_add (lexical_score ?v (doc_mat ex_ranker) 2) (Fin (doc_boost ex_ranker ''d'' [''covidex''] 2 * 100))"
    by (rule T [THEN conjunct2, THEN conjunct1, rule_format, OF sr])
  have w2: "doc_boost ?r0 ''d'' [''covidex''] 2 = 0"
    by (rule T0 [THEN conjunct2, THEN conjunct2, THEN conjunct1, rule_format, OF d0])
  note C = T [THEN conjunct2, THEN conjunct2, THEN conjunct2, THEN conjunct1, THEN spec, THEN mp,
      OF d3, unfolded n]
  note C1 = T1 [THEN conjunct2, THEN conjunct2, THEN conjunct2, THEN conjunct1, THEN spec, THEN mp,
      OF d3, unfolded n]
  note Cx = Tx [THEN conjunct2, THEN conjunct2, THEN conjunct2, THEN conjunct1, THEN spec, THEN mp,
      OF d3, unfolded n]
  note Ct = Tt [THEN conjunct2, THEN conjunct2, THEN conjunct2, THEN conjunct1, THEN spec, THEN mp,
      OF dt, unfolded nt]
  note Co = To [THEN conjunct2, THEN conjunct2, THEN conjunct2, THEN conjunct1, THEN spec, THEN mp,
      OF d3, unfolded n]
  have w3: "doc_boost ex_ranker ''d'' [''covidex''] 2 =
      (\<Sum>m\<leftarrow>[''covidex'']. source_boost ex_tabs ''d'' 4 m 2)"
    by (rule C [THEN conjunct1])
  let ?P = "[''d'' \<mapsto> [0, 2], ''e'' \<mapsto> [3]] :: string \<rightharpoonup> int list"
  let ?V = "[''d'' \<mapsto> [1, 3], ''e'' \<mapsto> [- 2]] :: string \<rightharpoonup> real list"
  have later0: "\<forall>j. 0 < j \<and> j < length [0, 2 :: nat] \<longrightarrow> [0, 2 :: nat] ! j \<noteq> [0, 2] ! 0"
    by (auto simp: less_Suc_eq)
  have later1: "\<forall>j. 1 < j \<and> j < length [0, 2 :: nat] \<longrightarrow> [0, 2 :: nat] ! j \<noteq> [0, 2] ! 1"
    by auto
  have pre0: "ex_tabs ''covidex'' = Some (?P, ?V) \<and> ?P ''d'' = Some [0, 2] \<and> ?V ''d'' = Some [1, 3] \<and>
      norm_indices 4 [0, 2] = Inr [0, 2] \<and> length [1, 3 :: real] = length [0, 2 :: nat] \<and>
      (0::nat) < length [0, 2 :: nat] \<and>
      (\<forall>j. 0 < j \<and> j < length [0, 2 :: nat] \<longrightarrow> [0, 2 :: nat] ! j \<noteq> [0, 2] ! 0)"
    using tm idx later0 by simp
  have pre1: "ex_tabs ''covidex'' = Some (?P, ?V) \<and> ?P ''d'' = Some [0, 2] \<and> ?V ''d'' = Some [1, 3] \<and>
      norm_indices 4 [0, 2] = Inr [0, 2] \<and> length [1, 3 :: real] = length [0, 2 :: nat] \<and>
      (1::nat) < length [0, 2 :: nat] \<and>
      (\<forall>j. 1 < j \<and> j < length [0, 2 :: nat] \<longrightarrow> [0, 2 :: nat] ! j \<noteq> [0, 2] ! 1)"
    using tm idx later1 by simp
  note L = C [THEN conjunct2, THEN conjunct1, THEN spec, THEN spec, THEN spec, THEN spec, THEN spec,
      THEN spec, THEN spec, THEN mp]
  have "source_boost ex_tabs ''d'' 4 ''covidex'' ([0, 2] ! 0) = [1, 3] ! 0"
    by (rule L [OF pre0])
  then have w4a: "source_boost ex_tabs ''d'' 4 ''covidex'' 0 = 1"
    by simp
  have "source_boost ex_tabs ''d'' 4 ''covidex'' ([0, 2] ! 1) = [1, 3] ! 1"
    by (rule L [OF pre1])
  then have w4: "source_boost ex_tabs ''d'' 4 ''covidex'' 2 = 3"
    by simp
  have w5: "source_boost ex_tabs ''d'' 4 ''covidex'' 1 = 0"
    by (rule C1 [THEN conjunct2, THEN conjunct2, THEN conjunct1, rule_format, OF nl])
  have prex: "ex_tabs ''covidex'' = Some (?P, ?V) \<and> ?P ''x'' = None"
    using tm by simp
  have w6: "source_boost ex_tabs ''x'' 4 ''covidex'' 2 = 0"
    by (rule Cx [THEN conjunct2, THEN conjunct2, THEN conjunct2, THEN conjunct1, rule_format,
          OF prex])
  let ?Pt = "[''d'' \<mapsto> [2, 2]] :: string \<rightharpoonup> int list"
  let ?Vt = "[''d'' \<mapsto> [1, 3]] :: string \<rightharpoonup> real list"
  have pret: "?tw ''twice'' = Some (?Pt, ?Vt) \<and> ?Pt ''d'' = Some [2, 2] \<and> ?Vt ''d'' = Some [1, 3] \<and>
      norm_indices 4 [2, 2] = Inr [2, 2] \<and> length [1, 3 :: real] = length [2, 2 :: nat] \<and>
      (1::nat) < length [2, 2 :: nat] \<and>
      (\<forall>j. 1 < j \<and> j < length [2, 2 :: nat] \<longrightarrow> [2, 2 :: nat] ! j \<noteq> [2, 2] ! 1)"
    using idxt by simp
  have "source_boost ?tw ''d'' 4 ''twice'' ([2, 2] ! 1) = [1, 3] ! 1"
    by (rule Ct [THEN conjunct2, THEN conjunct1, THEN spec, THEN spec, THEN spec, THEN spec,
          THEN spec, THEN spec, THEN spec, THEN mp, OF pret])
  then have w8: "source_boost ?tw ''d'' 4 ''twice'' 2 = 3"
    by simp
  have preo: "[''covidex'', ''other''] = [''covidex''] @ ''other'' # [] \<and>
      sp_cols ?v = length (mat_rows (doc_mat ex_ranker)) \<and>
      list_all (source_ok ex_tabs ''d'' 4) [''covidex''] \<and> ex_tabs ''other'' = None"
    using dims
    by (simp add: source_ok_def ex_tabs_def norm_indices_def norm_index_def broadcast_to_def)
  have w9: "score_row ex_ranker ?v ''d'' [''covidex'', ''other''] 100 = Inl (KeyError ''other'')"
    by (rule Co [THEN conjunct2, THEN conjunct2, THEN conjunct2, THEN conjunct2, THEN spec,
          THEN spec, THEN spec, THEN mp, OF preo])
  have w7: "closest_docs np_stable ex_ranker ''d'' [''covidex''] 100 1 =
     ([], case score_row ex_ranker ?v ''d'' [''covidex''] 100 of
            Inl e \<Rightarrow> Inl e | Inr res \<Rightarrow> top_k np_stable res 1)"
    by (rule T [THEN conjunct2, THEN conjunct2, THEN conjunct2, THEN conjunct2, rule_format,
          OF text2spvec_ex_d, THEN conjunct1])
  from w1 have w1': "value_at [(0, Fin 100), (2, Fin 300)] 2 =
      fl_add (lexical_score ?v (doc_mat ex_ranker) 2) (Fin (doc_boost ex_ranker ''d'' [''covidex''] 2 * 100))"
    by (simp only: sprow.simps)
  from w0 sr w1' w2 w3 w4a w4 w5 w6 w8 w9 w7 show ?thesis
    by (intro conjI)
qed

lemma text2spvec_ex_twice:
  "text2spvec ex_twice ''d'' = ([], Inr \<lparr>sp_cols = 4, sp_ents = [(3, Fin (ln 2 * ln 9))]\<rparr>)"
  by (simp add: text2spvec_def ex_twice_def ex_defs log1p_def log_ratio_def idf_arg_def clamp_neg_def)

lemma score_row_ex_twice:
  "score_row ex_twice \<lparr>sp_cols = 4, sp_ents = [(3, Fin (ln 2 * ln 9))]\<rparr> ''d'' [''twice''] s =
     Inr \<lparr>sp_cols = 4, sp_ents = [(2, Fin (3 * s))]\<rparr>"
  by (simp add: ex_twice_def row_defs)

lemma doc_scores_ex_twice:
  "doc_scores ex_twice (''d'', [2]) [''twice''] s = ([], Inr [Fin (3 * s)])"
  by (simp add: doc_scores_def text2spvec_ex_twice score_row_ex_twice norm_indices_def
      norm_index_def value_at_def)

lemma score_row_ex_d_other:
  "score_row ex_ranker \<lparr>sp_cols = 4, sp_ents = [(3, Fin (ln 2 * ln 9))]\<rparr> ''d'' [''other''] s =
     Inl (KeyError ''other'')"
  by (simp add: row_defs)

lemma score_row_ex_d_none:
  "score_row ex_ranker \<lparr>sp_cols = 4, sp_ents = [(3, Fin (ln 2 * ln 9))]\<rparr> ''d'' [] s =
     Inr \<lparr>sp_cols = 4, sp_ents = []\<rparr>"
  by (simp add: row_defs)

lemma lexical_score_ex_twice:
  "lexical_score \<lparr>sp_cols = 4, sp_ents = [(3, Fin (ln 2 * ln 9))]\<rparr> (doc_mat ex_twice) 2 = Fin 0"
  by (simp add: lexical_score_def contributions_def col_sum_def ex_twice_def ex_ranker_def)

text \<open>
  Claim C4 as stated fails twice. A requested meta source that the table does not hold
  does not leave the scores unchanged: for the query \<open>d\<close> document 2 has the score 0
  with no meta source requested, and with the source \<open>other\<close> requested both
  \<open>doc_scores\<close> and \<open>closest_docs\<close> raise KeyError. And the boost values are not
  added elementwise when a position is listed twice: the source \<open>twice\<close> lists
  document 2 twice for the query \<open>d\<close> with the boost values 1 and 3, and with
  \<open>meta_scale = 100\<close> the score of document 2 is 0 + 300, not 0 + 100 + 300.
\<close>

theorem meta_source_missing_or_listed_twice:
  "doc_scores ex_ranker (''d'', [2]) [] 100 = ([], Inr [Fin 0]) \<and>
   doc_scores ex_ranker (''d'', [2]) [''other''] 100 = ([], Inl (KeyError ''other'')) \<and>
   closest_docs np_stable ex_ranker ''d'' [''other''] 100 1 = ([], Inl (KeyError ''other'')) \<and>
   doc_dict_3 (doc_dict ex_twice) = Some [''twice'' \<mapsto> ([''d'' \<mapsto> [2, 2]], [''d'' \<mapsto> [1, 3]])] \<and>
   lexical_score \<lparr>sp_cols = 4, sp_ents = [(3, Fin (ln 2 * ln 9))]\<rparr> (doc_mat ex_twice) 2 = Fin 0 \<and>
   doc_scores ex_twice (''d'', [2]) [''twice''] 100 = ([], Inr [Fin 300]) \<and>
   fl_add (fl_add (Fin 0) (Fin (1 * 100))) (Fin (3 * 100)) = Fin 400"
proof -
  have a: "doc_scores ex_ranker (''d'', [2]) [] 100 = ([], Inr [Fin 0])"
    by (simp add: doc_scores_def text2spvec_ex_d score_row_ex_d_none norm_indices_def
        norm_index_def value_at_def)
  have b: "doc_scores ex_ranker (''d'', [2]) [''other''] 100 = ([], Inl (KeyError ''other''))"
    by (simp add: doc_scores_def text2spvec_ex_d score_row_ex_d_other)
  have c: "closest_docs np_stable ex_ranker ''d'' [''other''] 100 1 = ([], Inl (KeyError ''other''))"
    by (simp add: closest_docs_def text2spvec_ex_d score_row_ex_d_other)
  have d: "doc_dict_3 (doc_dict ex_twice) =
      Some [''twice'' \<mapsto> ([''d'' \<mapsto> [2, 2]], [''d'' \<mapsto> [1, 3]])]"
    by (simp add: ex_twice_def)
  have e: "doc_scores ex_twice (''d'', [2]) [''twice''] 100 = ([], Inr [Fin 300])"
    using doc_scores_ex_twice [of 100] by simp
  have f: "fl_add (fl_add (Fin 0) (Fin (1 * 100))) (Fin (3 * 100)) = Fin 400"
    by (simp add: fl_add_Fin_Fin)
  from a b c d lexical_score_ex_twice e f show ?thesis
    by (intro conjI)
qed

subsection \<open>Empty queries, batches and the key of the meta lookup\<close>

lemma text2spvec_empty:
  assumes "map (\<lambda>w. utils_hash r w (hash_size r)) (parse r (utils_normalize r query)) = []"
  shows "text2spvec r query =
           (if strict r then ([], Inl (RuntimeError (''No valid word in: '' @ query)))
            else ([Warning (''No valid word in: '' @ query)],
                  Inr \<lparr>sp_cols = hash_size r, sp_ents = []\<rparr>))"
  using assms by (simp add: text2spvec_def)

lemma text2spvec_cols: "text2spvec r query = (lg, Inr v) \<Longrightarrow> sp_cols v = hash_size r"
  by (auto simp: text2spvec_def Let_def split: if_splits)

lemma text2spvec_fails:
  assumes "text2spvec r query = (lg, Inl e)"
    and "\<forall>t \<in> set (map (\<lambda>w. utils_hash r w (hash_size r)) (parse r (utils_normalize r query))).
           t < length (doc_freqs r)"
  shows "map (\<lambda>w. utils_hash r w (hash_size r)) (parse r (utils_normalize r query)) = [] \<and>
         strict r \<and> lg = [] \<and> e = RuntimeError (''No valid word in: '' @ query)"
proof (cases "map (\<lambda>w. utils_hash r w (hash_size r)) (parse r (utils_normalize r query)) = []")
  case True
  from text2spvec_empty [OF True] assms(1) show ?thesis
    using True by (auto split: if_splits)
next
  case False
  from text2spvec_nonempty [OF refl False] assms(2) have "\<exists>v. text2spvec r query = ([], Inr v)"
    by auto
  with assms(1) show ?thesis
    by auto
qed

lemma top_k_returns: "0 \<le> k \<Longrightarrow> \<exists>res'. top_k np res k = Inr res'"
  by (simp add: top_k_def Let_def)

lemma norm_indices_succeeds:
  "\<forall>i \<in> set idx. - int n \<le> i \<and> i < int n \<Longrightarrow> \<exists>idx'. norm_indices n idx = Inr idx'"
proof (induction idx)
  case Nil
  then show ?case by (simp add: norm_indices_def)
next
  case (Cons i idx)
  then obtain idx' where "norm_indices n idx = Inr idx'"
    by auto
  moreover from Cons.prems have "\<exists>j. norm_index n i = Inr j"
    by (auto simp: norm_index_def)
  ultimately show ?case
    by (auto simp: norm_indices_def)
qed

text \<open>
  Claim C3, as the code has it. For a query with no hashed n-gram: with \<open>strict\<close>,
  \<open>text2spvec\<close> raises the RuntimeError \<open>No valid word in: query\<close> and logs nothing,
  and \<open>closest_docs\<close> and \<open>doc_scores\<close> raise the same error; without \<open>strict\<close>,
  \<open>text2spvec\<close> logs one warning and returns the vector of dimension \<open>hash_size\<close>
  with no stored entry. When the bucket ids are within the document-frequency vector this
  is the only exception of \<open>text2spvec\<close>. When the vector is built, the matrix has
  \<open>hash_size\<close> rows and the loop over the meta sources raises nothing,
  \<open>closest_docs\<close> returns for every \<open>k\<close> that is not negative and
  \<open>doc_scores\<close> for indices in range.
\<close>

theorem empty_query_failure:
  "(map (\<lambda>w. utils_hash r w (hash_size r)) (parse r (utils_normalize r query)) = [] \<and> strict r \<longrightarrow>
      text2spvec r query = ([], Inl (RuntimeError (''No valid word in: '' @ query))) \<and>
      closest_docs np r query meta meta_scale k =
        ([], Inl (RuntimeError (''No valid word in: '' @ query))) \<and>
      doc_scores r (query, doc_idx) meta meta_scale =
        ([], Inl (RuntimeError (''No valid word in: '' @ query)))) \<and>
   (map (\<lambda>w. utils_hash r w (hash_size r)) (parse r (utils_normalize r query)) = [] \<and> \<not> strict r \<longrightarrow>
      text2spvec r query =
        ([Warning (''No valid word in: '' @ query)], Inr \<lparr>sp_cols = hash_size r, sp_ents = []\<rparr>)) \<and>
   (\<forall>lg e. text2spvec r query = (lg, Inl e) \<and>
      (\<forall>t \<in> set (map (\<lambda>w. utils_hash r w (hash_size r)) (parse r (utils_normalize r query))).
          t < length (doc_freqs r)) \<longrightarrow>
      map (\<lambda>w. utils_hash r w (hash_size r)) (parse r (utils_normalize r query)) = [] \<and> strict r \<and>
      e = RuntimeError (''No valid word in: '' @ query)) \<and>
   (\<forall>lg v. text2spvec r query = (lg, Inr v) \<and> hash_size r = length (mat_rows (doc_mat r)) \<and>
      meta_ok r query meta \<longrightarrow>
      (0 \<le> k \<longrightarrow> (\<exists>res. closest_docs np r query meta meta_scale k = (lg, Inr res))) \<and>
      ((\<forall>i \<in> set doc_idx. - int (mat_cols (doc_mat r)) \<le> i \<and> i < int (mat_cols (doc_mat r))) \<longrightarrow>
         (\<exists>ys. doc_scores r (query, doc_idx) meta meta_scale = (lg, Inr ys))))"
proof -
  let ?W = "map (\<lambda>w. utils_hash r w (hash_size r)) (parse r (utils_normalize r query))"
  let ?E = "RuntimeError (''No valid word in: '' @ query)"
  have a: "?W = [] \<and> strict r \<longrightarrow>
      text2spvec r query = ([], Inl ?E) \<and> closest_docs np r query meta meta_scale k = ([], Inl ?E) \<and>
      doc_scores r (query, doc_idx) meta meta_scale = ([], Inl ?E)"
  proof
    assume "?W = [] \<and> strict r"
    with text2spvec_empty [of r query] have "text2spvec r query = ([], Inl ?E)"
      by simp
    then show "text2spvec r query = ([], Inl ?E) \<and>
        closest_docs np r query meta meta_scale k = ([], Inl ?E) \<and>
        doc_scores r (query, doc_idx) meta meta_scale = ([], Inl ?E)"
      by (simp add: closest_docs_def doc_scores_def)
  qed
  have b: "?W = [] \<and> \<not> strict r \<longrightarrow>
      text2spvec r query = ([Warning (''No valid word in: '' @ query)],
                            Inr \<lparr>sp_cols = hash_size r, sp_ents = []\<rparr>)"
    using text2spvec_empty [of r query] by simp
  have c: "\<forall>lg e. text2spvec r query = (lg, Inl e) \<and> (\<forall>t \<in> set ?W. t < length (doc_freqs r)) \<longrightarrow>
      ?W = [] \<and> strict r \<and> e = ?E"
    using text2spvec_fails [of r query] by blast
  have d: "(0 \<le> k \<longrightarrow> (\<exists>res. closest_docs np r query meta meta_scale k = (lg, Inr res))) \<and>
      ((\<forall>i \<in> set doc_idx. - int (mat_cols (doc_mat r)) \<le> i \<and> i < int (mat_cols (doc_mat r))) \<longrightarrow>
         (\<exists>ys. doc_scores r (query, doc_idx) meta meta_scale = (lg, Inr ys)))"
    if "text2spvec r query = (lg, Inr v) \<and> hash_size r = length (mat_rows (doc_mat r)) \<and>
        meta_ok r query meta" for lg v
  proof -
    from that text2spvec_cols [of r query lg v] have "sp_cols v = length (mat_rows (doc_mat r))"
      by simp
    with that score_row_succeeds [of r v query meta meta_scale] obtain res where
      res: "score_row r v query meta meta_scale = Inr res"
      by blast
    from score_row_value [OF res] have cols: "sp_cols res = mat_cols (doc_mat r)"
      by simp
    have "\<exists>res'. closest_docs np r query meta meta_scale k = (lg, Inr res')" if "0 \<le> k"
      using top_k_returns [OF that, of np res] \<open>text2spvec r query = (lg, Inr v) \<and> _\<close> res
      by (auto simp: closest_docs_def)
    moreover have "\<exists>ys. doc_scores r (query, doc_idx) meta meta_scale = (lg, Inr ys)"
      if "\<forall>i \<in> set doc_idx. - int (mat_cols (doc_mat r)) \<le> i \<and> i < int (mat_cols (doc_mat r))"
      using norm_indices_succeeds [OF that] \<open>text2spvec r query = (lg, Inr v) \<and> _\<close> res cols
      by (auto simp: doc_scores_def)
    ultimately show ?thesis
      by blast
  qed
  from a b c d show ?thesis
    by blast
qed


lemma ex_empty_query:
  "map (\<lambda>w. utils_hash r w (hash_size r)) (parse r (utils_normalize r [])) = []"
  if "tokenizer_ngrams r = ex_ngrams" "utils_normalize r = ex_normalize" for r
  using that by (simp add: parse_def ex_ngrams_def ex_normalize_def)

lemma score_row_ex_other:
  "score_row ex_ranker \<lparr>sp_cols = 4, sp_ents = [(0, Fin (ln 2 * ln (7 / 3)))]\<rparr> ''a'' [''other''] s =
     Inl (KeyError ''other'')"
  by (simp add: row_defs)

lemma closest_docs_ex_other:
  "closest_docs np_stable ex_ranker ''a'' [''other''] 100 1 = ([], Inl (KeyError ''other''))"
  by (simp add: closest_docs_def text2spvec_ex_a score_row_ex_other)

lemma doc_scores_ex_other:
  "doc_scores ex_ranker (''a'', [0]) [''other''] 100 = ([], Inl (KeyError ''other''))"
  by (simp add: doc_scores_def text2spvec_ex_a score_row_ex_other)

theorem empty_query_failure_witness:
  "text2spvec ex_ranker [] = ([], Inl (RuntimeError ''No valid word in: '')) \<and>
   closest_docs np_stable ex_ranker [] [''covidex''] 100 1 =
     ([], Inl (RuntimeError ''No valid word in: '')) \<and>
   doc_scores ex_ranker ([], [0]) [''covidex''] 100 = ([], Inl (RuntimeError ''No valid word in: '')) \<and>
   text2spvec (ex_ranker\<lparr>strict := False\<rparr>) [] =
     ([Warning ''No valid word in: ''], Inr \<lparr>sp_cols = 4, sp_ents = []\<rparr>) \<and>
   strict ex_ranker \<and>
   (\<exists>res. closest_docs np_stable ex_ranker ''a'' [''covidex''] 100 1 = ([], Inr res)) \<and>
   (\<exists>ys. doc_scores ex_ranker (''a'', [0, 1, 2]) [''covidex''] 100 = ([], Inr ys))"
proof -
  let ?r' = "ex_ranker\<lparr>strict := False\<rparr>"
  have e1: "map (\<lambda>w. utils_hash ex_ranker w (hash_size ex_ranker))
              (parse ex_ranker (utils_normalize ex_ranker [])) = [] \<and> strict ex_ranker"
    using ex_empty_query [of ex_ranker] by (simp add: ex_ranker_def)
  have e2: "map (\<lambda>w. utils_hash ?r' w (hash_size ?r')) (parse ?r' (utils_normalize ?r' [])) = [] \<and>
              \<not> strict ?r'"
    using ex_empty_query [of ?r'] by (simp add: ex_ranker_def)
  have e4: "text2spvec ex_ranker ''a'' =
              ([], Inr \<lparr>sp_cols = 4, sp_ents = [(0, Fin (ln 2 * ln (7 / 3)))]\<rparr>) \<and>
            hash_size ex_ranker = length (mat_rows (doc_mat ex_ranker)) \<and>
            meta_ok ex_ranker ''a'' [''covidex'']"
    using text2spvec_ex_a meta_ok_ex by (simp add: ex_ranker_def)
  have k: "(0::int) \<le> 1"
    by simp
  have i: "\<forall>i \<in> set [0, 1, 2]. - int (mat_cols (doc_mat ex_ranker)) \<le> i \<and>
             i < int (mat_cols (doc_mat ex_ranker))"
    by (simp add: ex_ranker_def)
  note T1 = empty_query_failure [of ex_ranker "[]" np_stable "[''covidex'']" 100 1 "[0]"]
  note T2 = empty_query_failure [of ?r' "[]" np_stable "[''covidex'']" 100 1 "[0]"]
  note T4 = empty_query_failure [of ex_ranker "''a''" np_stable "[''covidex'']" 100 1 "[0, 1, 2]"]
  note a = T1 [THEN conjunct1, rule_format, OF e1]
  note b = T2 [THEN conjunct2, THEN conjunct1, rule_format, OF e2]
  note d = T4 [THEN conjunct2, THEN conjunct2, THEN conjunct2, THEN spec, THEN spec, THEN mp, OF e4]
  have e3: "text2spvec ex_ranker [] = ([], Inl (RuntimeError (''No valid word in: '' @ []))) \<and>
      (\<forall>t \<in> set (map (\<lambda>w. utils_hash ex_ranker w (hash_size ex_ranker))
                      (parse ex_ranker (utils_normalize ex_ranker []))).
          t < length (doc_freqs ex_ranker))"
    using a e1 by simp
  note c = T1 [THEN conjunct2, THEN conjunct2, THEN conjunct1, THEN spec, THEN spec, THEN mp, OF e3]
  from a b c d [THEN conjunct1, THEN mp, OF k] d [THEN conjunct2, THEN mp, OF i]
  show ?thesis
    by (simp add: ex_ranker_def)
qed

text \<open>
  Claim C3 as stated fails: the Empty-Query error is not the only failure of
  \<open>closest_docs\<close> and \<open>doc_scores\<close>. The query \<open>a\<close> has a vector, and with a
  requested meta source that the table does not hold, both raise KeyError.
\<close>

theorem closest_docs_fails_on_unknown_meta_source:
  "text2spvec ex_ranker ''a'' = ([], Inr \<lparr>sp_cols = 4, sp_ents = [(0, Fin (ln 2 * ln (7 / 3)))]\<rparr>) \<and>
   closest_docs np_stable ex_ranker ''a'' [''other''] 100 1 = ([], Inl (KeyError ''other'')) \<and>
   doc_scores ex_ranker (''a'', [0]) [''other''] 100 = ([], Inl (KeyError ''other''))"
  using text2spvec_ex_a closest_docs_ex_other doc_scores_ex_other by simp


lemma sequence_e_Inr:
  "sequence_e xs = Inr ys \<longleftrightarrow> length ys = length xs \<and> (\<forall>i < length xs. xs ! i = Inr (ys ! i))"
proof (induction xs arbitrary: ys)
  case Nil
  then show ?case by auto
next
  case (Cons x xs)
  show ?case
  proof (cases x)
    case (Inl e)
    then show ?thesis by auto
  next
    case (Inr y)
    show ?thesis
    proof (cases "sequence_e xs")
      case (Inl e)
      with Cons.IH have "\<not> (length zs = length xs \<and> (\<forall>i < length xs. xs ! i = Inr (zs ! i)))" for zs
        by auto
      from this [of "tl ys"] Inl Inr show ?thesis
        by (cases ys) (auto simp: nth_Cons split: nat.splits)
    next
      case zs: (Inr zs)
      with Cons.IH [of zs] have z: "length zs = length xs" "\<forall>i < length xs. xs ! i = Inr (zs ! i)"
        by auto
      show ?thesis
      proof
        assume "sequence_e (x # xs) = Inr ys"
        with Inr zs have "ys = y # zs" by simp
        with Inr z show "length ys = length (x # xs) \<and> (\<forall>i < length (x # xs). (x # xs) ! i = Inr (ys ! i))"
          by (auto simp: nth_Cons split: nat.splits)
      next
        assume a: "length ys = length (x # xs) \<and> (\<forall>i < length (x # xs). (x # xs) ! i = Inr (ys ! i))"
        then obtain y' ys' where ys: "ys = y' # ys'"
          by (cases ys) auto
        from a ys have "x = Inr y'" and "length ys' = length xs"
          and "\<forall>i < length xs. xs ! i = Inr (ys' ! i)"
          by (auto simp: nth_Cons split: nat.splits)
        with Cons.IH [of ys'] Inr ys show "sequence_e (x # xs) = Inr ys"
          by simp
      qed
    qed
  qed
qed

lemma sequence_e_Inl: "sequence_e xs = Inl e \<Longrightarrow> Inl e \<in> set xs"
  by (induction xs) (auto split: sum.splits)

lemma thread_pool_map_valid:
  "num_workers = None \<or> (\<exists>n. num_workers = Some n \<and> 1 \<le> n) \<Longrightarrow>
     thread_pool_map num_workers f xs = sequence_e (map f xs)"
  by (auto simp: thread_pool_map_def)

lemma thread_pool_map_Inr:
  assumes "num_workers = None \<or> (\<exists>n. num_workers = Some n \<and> 1 \<le> n)"
  shows "thread_pool_map num_workers f xs = Inr ys \<longleftrightarrow>
           length ys = length xs \<and> (\<forall>i < length xs. f (xs ! i) = Inr (ys ! i))"
  by (simp add: thread_pool_map_valid [OF assms] sequence_e_Inr)

lemma thread_pool_map_total:
  assumes "num_workers = None \<or> (\<exists>n. num_workers = Some n \<and> 1 \<le> n)"
    and "\<forall>x \<in> set xs. \<exists>y. f x = Inr y"
  shows "\<exists>ys. thread_pool_map num_workers f xs = Inr ys"
proof (cases "thread_pool_map num_workers f xs")
  case (Inl e)
  then have "Inl e \<in> set (map f xs)"
    using sequence_e_Inl [of "map f xs" e] by (simp add: thread_pool_map_valid [OF assms(1)])
  with assms(2) show ?thesis
    by auto
next
  case (Inr ys)
  then show ?thesis by blast
qed

text \<open>
  Claim C7. For a pool of at least one worker (or the default), \<open>batch_doc_meta\<close>
  returns the records of the ids in input order; when every query succeeds,
  \<open>batch_closest_docs\<close> returns as many results as queries, the \<open>i\<close>-th being the
  result of \<open>closest_docs\<close> on the \<open>i\<close>-th query; \<open>batch_doc_scores\<close> likewise on
  the pairs of \<open>zip(queries, doc_idxs)\<close>; and a batch that fails raises the exception of
  one of its items. The number of workers has no part in the result.
\<close>

theorem batch_results_in_input_order:
  assumes "num_workers = None \<or> (\<exists>n. num_workers = Some n \<and> 1 \<le> n)"
  shows "batch_doc_meta r pmids num_workers = Inr (map (doc_meta r) pmids) \<and>
         ((\<forall>q \<in> set queries. \<exists>res. snd (closest_docs np r q meta meta_scale k) = Inr res) \<longrightarrow>
            (\<exists>rs. batch_closest_docs np r queries meta meta_scale k num_workers = Inr rs \<and>
               length rs = length queries \<and>
               (\<forall>i < length queries.
                  snd (closest_docs np r (queries ! i) meta meta_scale k) = Inr (rs ! i)))) \<and>
         ((\<forall>qd \<in> set (zip queries doc_idxs). \<exists>ys. snd (doc_scores r qd meta meta_scale) = Inr ys) \<longrightarrow>
            (\<exists>rs. batch_doc_scores r queries doc_idxs meta meta_scale num_workers = Inr rs \<and>
               length rs = min (length queries) (length doc_idxs) \<and>
               (\<forall>i < length rs.
                  snd (doc_scores r (queries ! i, doc_idxs ! i) meta meta_scale) = Inr (rs ! i)))) \<and>
         (\<forall>e. batch_closest_docs np r queries meta meta_scale k num_workers = Inl e \<longrightarrow>
            (\<exists>q \<in> set queries. snd (closest_docs np r q meta meta_scale k) = Inl e)) \<and>
         (\<forall>e. batch_doc_scores r queries doc_idxs meta meta_scale num_workers = Inl e \<longrightarrow>
            (\<exists>qd \<in> set (zip queries doc_idxs). snd (doc_scores r qd meta meta_scale) = Inl e))"
proof -
  have a: "batch_doc_meta r pmids num_workers = Inr (map (doc_meta r) pmids)"
    by (simp add: batch_doc_meta_def thread_pool_map_valid [OF assms] sequence_e_map_Inr)
  have b: "\<exists>rs. batch_closest_docs np r queries meta meta_scale k num_workers = Inr rs \<and>
               length rs = length queries \<and>
               (\<forall>i < length queries.
                  snd (closest_docs np r (queries ! i) meta meta_scale k) = Inr (rs ! i))"
    if "\<forall>q \<in> set queries. \<exists>res. snd (closest_docs np r q meta meta_scale k) = Inr res"
  proof -
    from thread_pool_map_total [OF assms that] obtain rs where
      rs: "batch_closest_docs np r queries meta meta_scale k num_workers = Inr rs"
      by (auto simp: batch_closest_docs_def)
    then show ?thesis
      using thread_pool_map_Inr [OF assms, of "\<lambda>q. snd (closest_docs np r q meta meta_scale k)" queries rs]
      by (auto simp: batch_closest_docs_def)
  qed
  have c: "\<exists>rs. batch_doc_scores r queries doc_idxs meta meta_scale num_workers = Inr rs \<and>
               length rs = min (length queries) (length doc_idxs) \<and>
               (\<forall>i < length rs.
                  snd (doc_scores r (queries ! i, doc_idxs ! i) meta meta_scale) = Inr (rs ! i))"
    if "\<forall>qd \<in> set (zip queries doc_idxs). \<exists>ys. snd (doc_scores r qd meta meta_scale) = Inr ys"
  proof -
    from thread_pool_map_total [OF assms that] obtain rs where
      rs: "batch_doc_scores r queries doc_idxs meta meta_scale num_workers = Inr rs"
      by (auto simp: batch_doc_scores_def)
    then show ?thesis
      using thread_pool_map_Inr [OF assms, of "\<lambda>qd. snd (doc_scores r qd meta meta_scale)"
          "zip queries doc_idxs" rs]
      by (auto simp: batch_doc_scores_def)
  qed
  have d: "\<exists>q \<in> set queries. snd (closest_docs np r q meta meta_scale k) = Inl e"
    if "batch_closest_docs np r queries meta meta_scale k num_workers = Inl e" for e
    using that sequence_e_Inl [of "map (\<lambda>q. snd (closest_docs np r q meta meta_scale k)) queries" e]
    by (auto simp: batch_closest_docs_def thread_pool_map_valid [OF assms])
  have e: "\<exists>qd \<in> set (zip queries doc_idxs). snd (doc_scores r qd meta meta_scale) = Inl e"
    if "batch_doc_scores r queries doc_idxs meta meta_scale num_workers = Inl e" for e
    using that sequence_e_Inl [of "map (\<lambda>qd. snd (doc_scores r qd meta meta_scale))
        (zip queries doc_idxs)" e]
    by (auto simp: batch_doc_scores_def thread_pool_map_valid [OF assms])
  from a b c d e show ?thesis
    by blast
qed


lemma closest_docs_ex_a:
  "closest_docs np_stable ex_ranker ''a'' [''covidex''] 100 1 =
     ([], Inr ([1], [Fin (ln 2 * ln (7 / 3) * 2)]))"
  by (simp add: closest_docs_def text2spvec_ex_a score_row_ex_a top_k_def np_stable_def
      stable_argsort_def)

lemma closest_docs_ex_empty:
  "closest_docs np_stable ex_ranker [] [''covidex''] 100 1 =
     ([], Inl (RuntimeError ''No valid word in: ''))"
  by (simp add: closest_docs_def text2spvec_def ex_defs)

theorem batch_results_in_input_order_witness:
  "batch_doc_meta ex_ranker [''d1'', ''d7''] (Some 2) = Inr [[(''title'', ''one'')], []] \<and>
   (\<exists>rs. batch_closest_docs np_stable ex_ranker [''d'', ''a''] [''covidex''] 100 1 (Some 2) = Inr rs \<and>
      length rs = 2 \<and> rs ! 0 = ([2], [Fin 300]) \<and> rs ! 1 = ([1], [Fin (ln 2 * ln (7 / 3) * 2)])) \<and>
   (\<exists>rs. batch_doc_scores ex_ranker [''a'', ''d''] [[0, 1, 2], [0, 2, 1]] [''covidex''] 100 None = Inr rs \<and>
      length rs = 2 \<and> rs ! 1 = [Fin 100, Fin 300, Fin 0]) \<and>
   batch_closest_docs np_stable ex_ranker [''a'', []] [''covidex''] 100 1 (Some 2) =
     Inl (RuntimeError ''No valid word in: '')"
proof -
  have w2: "Some 2 = None \<or> (\<exists>n. Some 2 = Some n \<and> (1::int) \<le> n)"
    by simp
  have w0: "None = None \<or> (\<exists>n. None = Some n \<and> (1::int) \<le> n)"
    by simp
  have hb: "\<forall>q \<in> set [''d'', ''a'']. \<exists>res. snd (closest_docs np_stable ex_ranker q [''covidex''] 100 1) = Inr res"
    by (simp add: closest_docs_ex_d closest_docs_ex_a)
  have hc: "\<forall>qd \<in> set (zip [''a'', ''d''] [[0, 1, 2], [0, 2, 1]]).
              \<exists>ys. snd (doc_scores ex_ranker qd [''covidex''] 100) = Inr ys"
    by (simp add: doc_scores_ex_a doc_scores_ex_d)
  have hd: "batch_closest_docs np_stable ex_ranker [''a'', []] [''covidex''] 100 1 (Some 2) =
              Inl (RuntimeError ''No valid word in: '')"
    by (simp add: batch_closest_docs_def thread_pool_map_def closest_docs_ex_a closest_docs_ex_empty)
  note T = batch_results_in_input_order [where r = ex_ranker and pmids = "[''d1'', ''d7'']"
      and queries = "[''d'', ''a'']" and np = np_stable and meta = "[''covidex'']"
      and meta_scale = 100 and k = 1, OF w2]
  note T0 = batch_results_in_input_order [where r = ex_ranker and queries = "[''a'', ''d'']"
      and doc_idxs = "[[0, 1, 2], [0, 2, 1]]" and meta = "[''covidex'']" and meta_scale = 100, OF w0]
  from T [THEN conjunct1]
  have a: "batch_doc_meta ex_ranker [''d1'', ''d7''] (Some 2) = Inr [[(''title'', ''one'')], []]"
    by (simp add: doc_meta_def ex_ranker_def)
  from T [THEN conjunct2, THEN conjunct1, THEN mp, OF hb] obtain rs where
    rs: "batch_closest_docs np_stable ex_ranker [''d'', ''a''] [''covidex''] 100 1 (Some 2) = Inr rs"
      "length rs = length [''d'', ''a'']"
      "\<forall>i < length [''d'', ''a''].
         snd (closest_docs np_stable ex_ranker ([''d'', ''a''] ! i) [''covidex''] 100 1) = Inr (rs ! i)"
    by blast
  from rs(3) have "snd (closest_docs np_stable ex_ranker ''d'' [''covidex''] 100 1) = Inr (rs ! 0)"
    "snd (closest_docs np_stable ex_ranker ''a'' [''covidex''] 100 1) = Inr (rs ! 1)"
    by force+
  then have b: "rs ! 0 = ([2], [Fin 300])" "rs ! 1 = ([1], [Fin (ln 2 * ln (7 / 3) * 2)])"
    by (simp_all add: closest_docs_ex_d closest_docs_ex_a)
  from T0 [THEN conjunct2, THEN conjunct2, THEN conjunct1, THEN mp, OF hc] obtain ss where
    ss: "batch_doc_scores ex_ranker [''a'', ''d''] [[0, 1, 2], [0, 2, 1]] [''covidex''] 100 None = Inr ss"
      "length ss = min (length [''a'', ''d'']) (length [[0, 1, 2], [0, 2, 1 :: int]])"
      "\<forall>i < length ss.
         snd (doc_scores ex_ranker ([''a'', ''d''] ! i, [[0, 1, 2], [0, 2, 1]] ! i) [''covidex''] 100) =
           Inr (ss ! i)"
    by blast
  from ss(2,3) have "snd (doc_scores ex_ranker (''d'', [0, 2, 1]) [''covidex''] 100) = Inr (ss ! 1)"
    by force
  then have c: "ss ! 1 = [Fin 100, Fin 300, Fin 0]"
    by (simp add: doc_scores_ex_d)
  from a rs(1,2) b ss(1,2) c hd show ?thesis
    by auto
qed


lemma add_meta_cong:
  assumes "\<forall>m \<in> set ms.
             (tabs m = None \<and> tabs' m = None) \<or>
             (\<exists>p v p' v'. tabs m = Some (p, v) \<and> tabs' m = Some (p', v') \<and>
                p query = p' query \<and> v query = v' query)"
  shows "add_meta tabs query s ms res = add_meta tabs' query s ms res"
  using assms
proof (induction ms arbitrary: res)
  case Nil
  then show ?case by simp
next
  case (Cons m ms)
  from Cons.prems have rest: "\<forall>m \<in> set ms.
             (tabs m = None \<and> tabs' m = None) \<or>
             (\<exists>p v p' v'. tabs m = Some (p, v) \<and> tabs' m = Some (p', v') \<and>
                p query = p' query \<and> v query = v' query)"
    by simp
  note ih = Cons.IH [OF rest]
  from Cons.prems consider "tabs m = None" "tabs' m = None"
    | p v p' v' where "tabs m = Some (p, v)" "tabs' m = Some (p', v')"
        "p query = p' query" "v query = v' query"
    by auto
  then show ?case
  proof cases
    case 1
    then show ?thesis by simp
  next
    case 2
    then show ?thesis
      by (simp add: ih split: option.splits sum.splits)
  qed
qed

lemma text2spvec_doc_dict: "text2spvec (r\<lparr>doc_dict := dd\<rparr>) query = text2spvec r query"
  by (simp add: text2spvec_def parse_def Let_def)

lemma text2spvec_normalized:
  assumes "utils_normalize r q' = utils_normalize r query"
    and "text2spvec r query = (lg, Inr v)" "text2spvec r q' = (lg', Inr v')"
  shows "v' = v"
  using assms by (auto simp: text2spvec_def Let_def split: if_splits)

text \<open>
  Claim C10. When normalizing changes the query, giving a meta source an entry keyed by
  the normalized query (whatever positions and boosts it holds) changes no result of
  \<open>closest_docs\<close> or \<open>doc_scores\<close>; two queries with the same normalized form have
  the same vector; and the row of scores is the dot product of that vector plus the
  boost looked up with the raw query.
\<close>

theorem meta_lookup_uses_raw_query:
  assumes "utils_normalize r query \<noteq> query"
    and "doc_dict r = DocDict4 a b mm tabs"
    and "tabs m = Some (pos_of, val_of)"
  shows "closest_docs np
           (r\<lparr>doc_dict := DocDict4 a b mm
                (tabs(m \<mapsto> (pos_of(utils_normalize r query \<mapsto> pos),
                               val_of(utils_normalize r query \<mapsto> vals))))\<rparr>)
           query meta meta_scale k =
         closest_docs np r query meta meta_scale k \<and>
         doc_scores
           (r\<lparr>doc_dict := DocDict4 a b mm
                (tabs(m \<mapsto> (pos_of(utils_normalize r query \<mapsto> pos),
                               val_of(utils_normalize r query \<mapsto> vals))))\<rparr>)
           (query, doc_idx) meta meta_scale =
         doc_scores r (query, doc_idx) meta meta_scale \<and>
         (\<forall>q' lg v lg' v'. utils_normalize r q' = utils_normalize r query \<and>
            text2spvec r query = (lg, Inr v) \<and> text2spvec r q' = (lg', Inr v') \<longrightarrow> v' = v) \<and>
         (\<forall>lg v res. text2spvec r query = (lg, Inr v) \<and>
            score_row r v query meta meta_scale = Inr res \<longrightarrow>
            (\<forall>d. value_at (sp_ents res) d =
                   fl_add (lexical_score v (doc_mat r) d) (Fin (doc_boost r query meta d * meta_scale))))"
proof -
  let ?nq = "utils_normalize r query"
  let ?tabs' = "tabs(m \<mapsto> (pos_of(?nq \<mapsto> pos), val_of(?nq \<mapsto> vals)))"
  let ?r' = "r\<lparr>doc_dict := DocDict4 a b mm ?tabs'\<rparr>"
  have same: "\<forall>m' \<in> set meta.
             (?tabs' m' = None \<and> tabs m' = None) \<or>
             (\<exists>p v p' v'. ?tabs' m' = Some (p, v) \<and> tabs m' = Some (p', v') \<and>
                p query = p' query \<and> v query = v' query)"
  proof
    fix m'
    assume "m' \<in> set meta"
    show "(?tabs' m' = None \<and> tabs m' = None) \<or>
             (\<exists>p v p' v'. ?tabs' m' = Some (p, v) \<and> tabs m' = Some (p', v') \<and>
                p query = p' query \<and> v query = v' query)"
    proof (cases "m' = m")
      case True
      then show ?thesis
        using assms(1,3) by simp
    next
      case False
      then show ?thesis
        by (cases "tabs m'") auto
    qed
  qed
  have am: "add_meta ?tabs' query meta_scale meta res = add_meta tabs query meta_scale meta res" for res
    by (rule add_meta_cong [OF same])
  have d': "doc_dict ?r' = DocDict4 a b mm ?tabs'" and dm: "doc_mat ?r' = doc_mat r"
    by simp_all
  have sr: "score_row ?r' v query meta meta_scale = score_row r v query meta meta_scale" for v
    by (simp only: score_row_def d' dm assms(2) len_doc_dict.simps doc_dict_3.simps option.case am)
  have cd: "closest_docs np ?r' query meta meta_scale k = closest_docs np r query meta meta_scale k"
    by (simp only: closest_docs_def text2spvec_doc_dict sr)
  have ds: "doc_scores ?r' (query, doc_idx) meta meta_scale = doc_scores r (query, doc_idx) meta meta_scale"
    by (simp only: doc_scores_def prod.case text2spvec_doc_dict sr)
  have lx: "\<forall>q' lg v lg' v'. utils_normalize r q' = ?nq \<and>
            text2spvec r query = (lg, Inr v) \<and> text2spvec r q' = (lg', Inr v') \<longrightarrow> v' = v"
    using text2spvec_normalized by blast
  have bo: "\<forall>lg v res. text2spvec r query = (lg, Inr v) \<and>
            score_row r v query meta meta_scale = Inr res \<longrightarrow>
            (\<forall>d. value_at (sp_ents res) d =
                   fl_add (lexical_score v (doc_mat r) d) (Fin (doc_boost r query meta d * meta_scale)))"
    using score_row_value by blast
  from cd ds lx bo show ?thesis
    by (intro conjI)
qed


lemma closest_docs_ex_d_tilde:
  "closest_docs np_stable ex_ranker ''d~'' [''covidex''] 100 1 = ([], Inr ([], []))"
proof -
  have "text2spvec ex_ranker ''d~'' = ([], Inr \<lparr>sp_cols = 4, sp_ents = [(3, Fin (ln 2 * ln 9))]\<rparr>)"
    by (simp add: text2spvec_def ex_defs log1p_def log_ratio_def idf_arg_def clamp_neg_def)
  moreover have "score_row ex_ranker \<lparr>sp_cols = 4, sp_ents = [(3, Fin (ln 2 * ln 9))]\<rparr> ''d~''
      [''covidex''] 100 = Inr \<lparr>sp_cols = 4, sp_ents = []\<rparr>"
    by (simp add: row_defs)
  ultimately show ?thesis
    by (simp add: closest_docs_def top_k_def np_stable_def stable_argsort_def)
qed

theorem meta_lookup_uses_raw_query_witness:
  "utils_normalize ex_ranker ''d~'' = ''d'' \<and> ''d'' \<noteq> ''d~'' \<and>
   closest_docs np_stable
     (ex_ranker\<lparr>doc_dict := DocDict4 [(''d0'', 0), (''d1'', 1), (''d2'', 2), (''d3'', 3)]
          [''d0'', ''d1'', ''d2'', ''d3''] [''d1'' \<mapsto> [(''title'', ''one'')]]
          (ex_tabs(''covidex'' \<mapsto>
             ([''d'' \<mapsto> [0, 2], ''e'' \<mapsto> [3]](utils_normalize ex_ranker ''d~'' \<mapsto> [1]),
              [''d'' \<mapsto> [1, 3], ''e'' \<mapsto> [- 2]](utils_normalize ex_ranker ''d~'' \<mapsto> [7]))))\<rparr>)
     ''d~'' [''covidex''] 100 1 =
   closest_docs np_stable ex_ranker ''d~'' [''covidex''] 100 1 \<and>
   closest_docs np_stable ex_ranker ''d~'' [''covidex''] 100 1 = ([], Inr ([], []))"
proof -
  have n: "utils_normalize ex_ranker ''d~'' = ''d''"
    by (simp add: ex_ranker_def ex_normalize_def)
  then have h1: "utils_normalize ex_ranker ''d~'' \<noteq> ''d~''"
    by simp
  have h2: "doc_dict ex_ranker = DocDict4 [(''d0'', 0), (''d1'', 1), (''d2'', 2), (''d3'', 3)]
      [''d0'', ''d1'', ''d2'', ''d3''] [''d1'' \<mapsto> [(''title'', ''one'')]] ex_tabs"
    by (simp add: ex_ranker_def)
  have h3: "ex_tabs ''covidex'' =
      Some ([''d'' \<mapsto> [0, 2], ''e'' \<mapsto> [3]], [''d'' \<mapsto> [1, 3], ''e'' \<mapsto> [- 2]])"
    by (simp add: ex_tabs_def)
  have c2: "''d'' \<noteq> ''d~''"
    by simp
  note T = meta_lookup_uses_raw_query [OF h1 h2 h3, of np_stable "[1]" "[7]" "[''covidex'']" 100 1 "[]",
      THEN conjunct1]
  from n c2 T closest_docs_ex_d_tilde show ?thesis
    by (intro conjI)
qed

subsection \<open>Metadata\<close>

text \<open>
  Claim C9. \<open>doc_meta\<close> is a total function: it has no failing branch. With fewer
  than three components in \<open>doc_dict\<close> it returns the empty record; with a metadata
  map it returns the record of the id, and the empty record for an id the map lacks.
\<close>

theorem doc_meta_total:
  "(len_doc_dict (doc_dict r) < 3 \<longrightarrow> doc_meta r pmid = []) \<and>
   (\<forall>mm. doc_dict_2 (doc_dict r) = Some mm \<longrightarrow>
      doc_meta r pmid = (case mm pmid of None \<Rightarrow> [] | Some rec \<Rightarrow> rec))"
  by (cases "doc_dict r") (simp_all add: doc_meta_def)

theorem doc_meta_total_witness:
  "len_doc_dict (doc_dict (ex_ranker\<lparr>doc_dict := DocDict2 [] []\<rparr>)) < 3 \<and>
   doc_meta (ex_ranker\<lparr>doc_dict := DocDict2 [] []\<rparr>) ''d1'' = [] \<and>
   doc_meta ex_ranker ''d1'' = [(''title'', ''one'')] \<and>
   doc_meta ex_ranker ''d7'' = []"
  using doc_meta_total [of "ex_ranker\<lparr>doc_dict := DocDict2 [] []\<rparr>" "''d1''"]
    doc_meta_total [of ex_ranker "''d1''"] doc_meta_total [of ex_ranker "''d7''"]
  by (simp add: ex_ranker_def)

end
